theory Spec2Isabelle
  imports Main
begin

section \<open>The prompt chain manager of shared\_utils/prompt\_chaining\_utils.py\<close>

text \<open>
  The theory embeds \<^verbatim>\<open>PromptChainManager.execute_sequential_chain\<close> and
  \<^verbatim>\<open>PromptChainManager.execute_parallel_chains\<close>.

  Conventions of the embedding.
  \<^item> A Python exception is the string \<^verbatim>\<open>str(e)\<close>; a call that may raise returns
    \<open>string + 'a\<close>, with \<open>Inl\<close> for the exception.
  \<^item> The pipeline \<^verbatim>\<open>prompt | self.llm | StrOutputParser()\<close> is built from a template and
    then invoked on a dictionary of variables. It belongs to LangChain, not to this
    repository, so what it does is given by parameters. \<open>llm\<close> is the answer of the
    text-generation callable to the prompt built from a template and its variables: the
    generated text, or the exception raised. The answer may depend on everything that
    was called before (a model is neither pure nor deterministic), so \<open>llm\<close> receives
    the log of earlier calls as well.
  \<^item> Building the prompt can raise before the callable is reached:
    \<^verbatim>\<open>PromptTemplate.from_template\<close> rejects a malformed template and the formatting
    rejects a template that names a variable it is not given. In the sequential run,
    where calls of the callable are counted, the parameter \<open>template_error\<close> gives that
    exception (\<open>None\<close> when the prompt is built), and the callable is reached and logged
    only when there is none.
  \<^item> Every call of the callable and of a validator is appended to the field \<open>calls\<close>.
    The field is an observation log, not an attribute of the Python object; it is what
    "was invoked n times" and "was never called" are stated about.
  \<^item> Wall-clock readings (\<^verbatim>\<open>time.time()\<close>, \<^verbatim>\<open>datetime.now()\<close>), the durations derived
    from them, \<^verbatim>\<open>time.sleep\<close> and the logger are left out: they are real-time and
    floating-point values that no result field modelled here depends on.
\<close>

subsection \<open>Python's \<^verbatim>\<open>str\<close> on integers, \<^verbatim>\<open>str.upper\<close> and \<^verbatim>\<open>str.join\<close>\<close>

definition digit_char :: "nat \<Rightarrow> char" where
  "digit_char d = ''0123456789'' ! d"

function str_nat :: "nat \<Rightarrow> string" where
  "str_nat n = (if n < 10 then [digit_char n] else str_nat (n div 10) @ [digit_char (n mod 10)])"
  by pat_completeness auto
termination
  by (relation "measure (\<lambda>n. n)") auto

declare str_nat.simps [simp del]

definition str_int :: "int \<Rightarrow> string" where
  "str_int n = (if n < 0 then CHR ''-'' # str_nat (nat (- n)) else str_nat (nat n))"

text \<open>\<^verbatim>\<open>name.upper()\<close>, on ASCII letters (task names are taken to be ASCII).\<close>

definition upper_char :: "char \<Rightarrow> char" where
  "upper_char c =
     (let n = (of_char c :: nat) in if 97 \<le> n \<and> n \<le> 122 then char_of (n - 32) else c)"

definition upper :: "string \<Rightarrow> string" where
  "upper s = map upper_char s"

fun join :: "string \<Rightarrow> string list \<Rightarrow> string" where
  "join sep [] = []"
| "join sep [x] = x"
| "join sep (x # y # ys) = x @ sep @ join sep (y # ys)"

subsection \<open>Dictionaries in insertion order\<close>

text \<open>
  A Python \<^verbatim>\<open>dict\<close> keeps its keys in the order of their first insertion; storing under a
  key that is present replaces the value in place. \<open>dict_of\<close> is the dictionary
  comprehension \<^verbatim>\<open>{k: v for (k, v) in pairs}\<close>.
\<close>

fun dict_set :: "'k \<Rightarrow> 'v \<Rightarrow> ('k \<times> 'v) list \<Rightarrow> ('k \<times> 'v) list" where
  "dict_set k v [] = [(k, v)]"
| "dict_set k v (p # ps) = (if fst p = k then (k, v) # ps else p # dict_set k v ps)"

definition dict_of :: "('k \<times> 'v) list \<Rightarrow> ('k \<times> 'v) list" where
  "dict_of pairs = foldl (\<lambda>d (k, v). dict_set k v d) [] pairs"

subsection \<open>Data model\<close>

datatype event =
    Invoked string "(string \<times> string) list"
  | Validated string string

type_synonym llm = "event list \<Rightarrow> string \<Rightarrow> (string \<times> string) list \<Rightarrow> string + string"

type_synonym template_check = "string \<Rightarrow> (string \<times> string) list \<Rightarrow> string option"

type_synonym validator = "string \<Rightarrow> string + bool"

text \<open>
  A step configuration: the dictionary with the key \<^verbatim>\<open>"template"\<close> and, optionally, the
  keys \<^verbatim>\<open>"validators"\<close> (a dictionary from names to predicates) and \<^verbatim>\<open>"validator"\<close>
  (one predicate; \<open>None\<close> when the key is absent or its value is falsy).
\<close>

record chain_step =
  template :: string
  validators :: "(string \<times> validator) list option"
  validator :: "validator option"

record step_log =
  log_step :: nat
  log_template :: string
  input_preview :: string
  retry_attempt :: int

record step_result =
  step :: nat
  output_text :: string
  validation_results :: "(string \<times> bool) list"
  retry_count :: int
  output_length :: nat

datatype log_entry =
    LogFailed string nat int
  | LogSuccess nat

record metrics_summary =
  total_steps :: nat
  step_timings_summary :: "nat list"

text \<open>
  The state of one \<^verbatim>\<open>PromptChainManager\<close>: \<^verbatim>\<open>chain_history\<close>, \<^verbatim>\<open>execution_log\<close>, the steps
  recorded in \<^verbatim>\<open>performance_metrics.step_timings\<close>, and the observation log \<open>calls\<close>.
  \<^verbatim>\<open>self.max_retries\<close> and \<^verbatim>\<open>self.llm\<close> are never assigned after construction and are
  passed as arguments.
\<close>

record manager =
  chain_history :: "step_log list"
  execution_log :: "log_entry list"
  step_timings :: "nat list"
  calls :: "event list"

definition get_summary :: "manager \<Rightarrow> metrics_summary" where
  "get_summary m = \<lparr>total_steps = length (step_timings m), step_timings_summary = step_timings m\<rparr>"

text \<open>
  The dictionary returned by the sequential run: with \<^verbatim>\<open>"success": True\<close> the keys
  \<^verbatim>\<open>results\<close>, \<^verbatim>\<open>final_output\<close>, \<^verbatim>\<open>execution_history\<close>, \<^verbatim>\<open>performance_metrics\<close>,
  \<^verbatim>\<open>execution_log\<close>; with \<^verbatim>\<open>"success": False\<close> the keys \<^verbatim>\<open>error\<close>, \<^verbatim>\<open>partial_results\<close>,
  \<^verbatim>\<open>execution_history\<close>, \<^verbatim>\<open>performance_metrics\<close>.
\<close>

datatype chain_outcome =
    Success "step_result list" string "step_log list" metrics_summary "log_entry list"
  | Failure string "step_result list" "step_log list" metrics_summary

subsection \<open>One attempt of one step\<close>

text \<open>
  The loop over \<^verbatim>\<open>step["validators"].items()\<close>: each validator is called on the raw
  output, its verdict is appended to \<^verbatim>\<open>validation_results\<close> (here \<open>verdicts\<close>), and a
  false verdict raises \<^verbatim>\<open>ValueError\<close> at once; the list is local to the \<^verbatim>\<open>try\<close> block and
  is lost with the exception. A validator that raises ends the attempt the same way.
  \<open>n\<close> is \<^verbatim>\<open>i + 1\<close>.
\<close>

fun run_validators ::
  "nat \<Rightarrow> (string \<times> validator) list \<Rightarrow> string \<Rightarrow> (string \<times> bool) list \<Rightarrow> event list
     \<Rightarrow> (string + (string \<times> bool) list) \<times> event list" where
  "run_validators n [] result verdicts tr = (Inr verdicts, tr)"
| "run_validators n ((validator_name, validator_func) # rest) result verdicts tr =
     (let tr' = tr @ [Validated validator_name result] in
      case validator_func result of
        Inl e \<Rightarrow> (Inl e, tr')
      | Inr is_valid \<Rightarrow>
          if \<not> is_valid
          then (Inl (''Step '' @ str_nat n @ '' failed '' @ validator_name @ '' validation''), tr')
          else run_validators n rest result (verdicts @ [(validator_name, is_valid)]) tr')"

definition validate ::
  "nat \<Rightarrow> chain_step \<Rightarrow> string \<Rightarrow> event list \<Rightarrow> (string + (string \<times> bool) list) \<times> event list" where
  "validate n s result tr =
     (case validators s of
        Some vs \<Rightarrow> run_validators n vs result [] tr
      | None \<Rightarrow>
          (case validator s of
             Some f \<Rightarrow>
               (let tr' = tr @ [Validated ''default'' result] in
                case f result of
                  Inl e \<Rightarrow> (Inl e, tr')
                | Inr is_valid \<Rightarrow>
                    if \<not> is_valid
                    then (Inl (''Step '' @ str_nat n @ '' validation failed''), tr')
                    else (Inr [(''default'', is_valid)], tr'))
           | None \<Rightarrow> (Inr [], tr)))"

text \<open>
  The body of the \<^verbatim>\<open>try\<close> block for step index \<open>i\<close> at retry number \<open>rc\<close>: log the attempt,
  build the prompt from the template (which may raise, and then the callable is not
  reached), invoke the callable, validate, and on success record the timing entry and
  build the step result. \<open>Inl\<close> is the exception that reaches the \<^verbatim>\<open>except\<close> clause.
\<close>

definition attempt ::
  "template_check \<Rightarrow> llm \<Rightarrow> nat \<Rightarrow> chain_step \<Rightarrow> string \<Rightarrow> int \<Rightarrow> manager
     \<Rightarrow> (string + step_result) \<times> manager" where
  "attempt template_error llm i s current_input rc m =
     (let m1 = m\<lparr>chain_history := chain_history m @
                  [\<lparr>log_step = i + 1, log_template = template s,
                    input_preview = current_input, retry_attempt = rc\<rparr>]\<rparr>;
          vars = [(''input'', current_input)]
      in case template_error (template s) vars of
           Some e \<Rightarrow> (Inl e, m1)
         | None \<Rightarrow>
             (let m2 = m1\<lparr>calls := calls m1 @ [Invoked (template s) vars]\<rparr>
              in case llm (calls m1) (template s) vars of
                   Inl e \<Rightarrow> (Inl e, m2)
                 | Inr result \<Rightarrow>
                     (case validate (i + 1) s result (calls m2) of
                        (Inl e, tr) \<Rightarrow> (Inl e, m2\<lparr>calls := tr\<rparr>)
                      | (Inr verdicts, tr) \<Rightarrow>
                          (Inr \<lparr>step = i + 1, output_text = result,
                                validation_results = verdicts,
                                retry_count = rc, output_length = length result\<rparr>,
                           m2\<lparr>calls := tr, step_timings := step_timings m2 @ [i + 1]\<rparr>))))"

text \<open>
  The manager after the first \<open>n\<close> attempts of a step, numbered from 0: the state in
  which attempt number \<open>n\<close> is made, when the attempts before it have not completed the
  step.
\<close>

fun after_attempts ::
  "template_check \<Rightarrow> llm \<Rightarrow> nat \<Rightarrow> chain_step \<Rightarrow> string \<Rightarrow> nat \<Rightarrow> manager \<Rightarrow> manager" where
  "after_attempts template_error llm i s current_input 0 m = m"
| "after_attempts template_error llm i s current_input (Suc n) m =
     snd (attempt template_error llm i s current_input (int n)
            (after_attempts template_error llm i s current_input n m))"

subsection \<open>The retry loop of one step\<close>

text \<open>
  \<^verbatim>\<open>while retry_count <= self.max_retries and not step_successful\<close>. The loop ends with the
  step completed, with the retries exhausted (the \<^verbatim>\<open>return error_result\<close> inside the
  handler; the retry count carried is the incremented one), or without having run its
  body at all, which happens when \<^verbatim>\<open>max_retries\<close> is negative. \<open>rc\<close> is the local
  variable \<^verbatim>\<open>retry_count\<close>.
\<close>

datatype step_outcome =
    Completed step_result
  | Exhausted string int
  | NotRun

function retry_loop ::
  "template_check \<Rightarrow> llm \<Rightarrow> int \<Rightarrow> nat \<Rightarrow> chain_step \<Rightarrow> string \<Rightarrow> int \<Rightarrow> manager
     \<Rightarrow> step_outcome \<times> manager" where
  "retry_loop template_error llm max_retries i s current_input rc m =
     (if rc \<le> max_retries then
        (case attempt template_error llm i s current_input rc m of
           (Inr step_result, m') \<Rightarrow> (Completed step_result, m')
         | (Inl error_msg, m') \<Rightarrow>
             (if rc + 1 > max_retries then (Exhausted error_msg (rc + 1), m')
              else retry_loop template_error llm max_retries i s current_input (rc + 1) m'))
      else (NotRun, m))"
  by pat_completeness auto
termination
  by (relation "measure (\<lambda>(template_error, llm, max_retries, i, s, current_input, rc, m).
                   nat (max_retries + 1 - rc))") auto

declare retry_loop.simps [simp del]

subsection \<open>The sequential run\<close>

text \<open>
  The \<^verbatim>\<open>for i, step in enumerate(chain_steps)\<close> loop. \<open>Inl\<close> is the early
  \<^verbatim>\<open>return error_result\<close>; \<open>Inr\<close> carries \<^verbatim>\<open>current_input\<close> and \<^verbatim>\<open>results\<close> at the end of
  the loop.
\<close>

fun run_steps ::
  "template_check \<Rightarrow> llm \<Rightarrow> int \<Rightarrow> nat \<Rightarrow> chain_step list \<Rightarrow> string \<Rightarrow> step_result list \<Rightarrow> manager
     \<Rightarrow> (chain_outcome + string \<times> step_result list) \<times> manager" where
  "run_steps template_error llm max_retries i [] current_input results m = (Inr (current_input, results), m)"
| "run_steps template_error llm max_retries i (s # rest) current_input results m =
     (case retry_loop template_error llm max_retries i s current_input 0 m of
        (Completed step_result, m') \<Rightarrow>
          run_steps template_error llm max_retries (i + 1) rest (output_text step_result)
            (results @ [step_result]) m'
      | (Exhausted error_msg rc, m') \<Rightarrow>
          (Inl (Failure (''Chain failed at step '' @ str_nat (i + 1) @ '' after ''
                           @ str_int (max_retries + 1) @ '' attempts: '' @ error_msg)
                        results (chain_history m') (get_summary m')),
           m'\<lparr>execution_log := execution_log m' @ [LogFailed error_msg (i + 1) (rc - 1)]\<rparr>)
      | (NotRun, m') \<Rightarrow> run_steps template_error llm max_retries (i + 1) rest current_input results m')"

definition execute_sequential_chain ::
  "template_check \<Rightarrow> llm \<Rightarrow> int \<Rightarrow> chain_step list \<Rightarrow> string \<Rightarrow> manager \<Rightarrow> chain_outcome \<times> manager" where
  "execute_sequential_chain template_error llm max_retries chain_steps initial_input m =
     (case run_steps template_error llm max_retries 0 chain_steps initial_input [] m of
        (Inl error_result, m') \<Rightarrow> (error_result, m')
      | (Inr (current_input, results), m') \<Rightarrow>
          (let m2 = m'\<lparr>execution_log := execution_log m' @ [LogSuccess (length chain_steps)]\<rparr>
           in (Success results current_input (chain_history m2) (get_summary m2) (execution_log m2),
               m2)))"

subsection \<open>The parallel run\<close>

text \<open>
  The dictionary returned by \<^verbatim>\<open>run_single_prompt\<close>: \<^verbatim>\<open>name\<close>, \<^verbatim>\<open>result\<close>, \<^verbatim>\<open>success\<close>, and
  \<^verbatim>\<open>output_length\<close> on success or \<^verbatim>\<open>error\<close> on failure.
\<close>

record task_result =
  name :: string
  result :: string
  task_success :: bool
  task_output_length :: "nat option"
  task_error :: "string option"

text \<open>
  The dictionary returned by \<^verbatim>\<open>execute_parallel_chains\<close>; \<open>synthesis = None\<close> is Python's
  \<^verbatim>\<open>None\<close>. Of \<^verbatim>\<open>performance_metrics\<close> the worker count is kept.
\<close>

record parallel_outcome =
  parallel_success :: bool
  parallel_results :: "(string \<times> string) list"
  successful_count :: int
  failed_count :: int
  synthesis :: "string option"
  execution_details :: "task_result list"
  max_workers_used :: nat

text \<open>
  One task. The \<^verbatim>\<open>try\<close> block invokes the pipeline once on \<^verbatim>\<open>{"document": document}\<close>;
  the \<^verbatim>\<open>except Exception\<close> clause turns an exception into a failed entry. The pipeline
  is taken as a whole here: what is logged is its invocation, and an exception raised
  while the prompt is built is one of the exceptions that \<open>llm\<close> answers with.
\<close>

definition run_single_prompt ::
  "llm \<Rightarrow> string \<Rightarrow> string \<Rightarrow> string \<Rightarrow> event list \<Rightarrow> task_result \<times> event list" where
  "run_single_prompt llm document prompt_name tmpl tr =
     (let vars = [(''document'', document)];
          tr' = tr @ [Invoked tmpl vars]
      in case llm tr tmpl vars of
           Inr res \<Rightarrow>
             (\<lparr>name = prompt_name, result = res, task_success = True,
               task_output_length = Some (length res), task_error = None\<rparr>, tr')
         | Inl error_msg \<Rightarrow>
             (\<lparr>name = prompt_name, result = ''Error: '' @ error_msg, task_success = False,
               task_output_length = None, task_error = Some error_msg\<rparr>, tr'))"

text \<open>
  The thread pool runs every submitted task to its end and \<^verbatim>\<open>future.result()\<close> collects
  the entries in submission order. The tasks are run here one after the other in that
  order. Since \<open>llm\<close> sees the log of earlier calls and is arbitrary, every assignment of
  answers to tasks that some interleaving of the threads can produce is the answer of
  some \<open>llm\<close> in this order.
\<close>

fun run_tasks ::
  "llm \<Rightarrow> string \<Rightarrow> (string \<times> string) list \<Rightarrow> event list \<Rightarrow> task_result list \<times> event list" where
  "run_tasks llm document [] tr = ([], tr)"
| "run_tasks llm document ((prompt_name, tmpl) # rest) tr =
     (case run_single_prompt llm document prompt_name tmpl tr of
        (r, tr') \<Rightarrow>
          (case run_tasks llm document rest tr' of
             (rs, tr'') \<Rightarrow> (r # rs, tr'')))"

text \<open>
  The synthesis block: entered only when a template was supplied (and is not empty) and
  the dictionary of successful results is not empty.
\<close>

definition synthesize ::
  "llm \<Rightarrow> string \<Rightarrow> string option \<Rightarrow> (string \<times> string) list \<Rightarrow> event list
     \<Rightarrow> string option \<times> event list" where
  "synthesize llm document synthesis_template successful_results tr =
     (case synthesis_template of
        None \<Rightarrow> (None, tr)
      | Some tmpl \<Rightarrow>
          if tmpl \<noteq> [] \<and> successful_results \<noteq> [] then
            (let synthesis_input =
                   join [CHR 0x0A, CHR 0x0A]
                     (map (\<lambda>(nm, res). upper nm @ '':'' @ [CHR 0x0A] @ res) successful_results);
                 vars = [(''analysis_results'', synthesis_input),
                         (''original_document'', document)]
             in case llm tr tmpl vars of
                  Inr res \<Rightarrow> (Some res, tr @ [Invoked tmpl vars])
                | Inl e \<Rightarrow> (Some (''Synthesis failed: '' @ e), tr @ [Invoked tmpl vars]))
          else (None, tr))"

text \<open>
  \<^verbatim>\<open>ThreadPoolExecutor(max_workers=0)\<close> raises \<^verbatim>\<open>ValueError\<close> in its constructor, outside
  every \<^verbatim>\<open>try\<close> block of the method: \<open>Inl\<close> is an exception that leaves
  \<^verbatim>\<open>execute_parallel_chains\<close>. (With no task the later \<^verbatim>\<open>sum(...) / len(parallel_results)\<close>,
  \<^verbatim>\<open>min\<close> and \<^verbatim>\<open>max\<close> would raise as well; they are not reached.)
\<close>

definition execute_parallel_chains ::
  "llm \<Rightarrow> (string \<times> string) list \<Rightarrow> string \<Rightarrow> string option \<Rightarrow> manager
     \<Rightarrow> (string + parallel_outcome) \<times> manager" where
  "execute_parallel_chains llm prompt_templates document synthesis_template m =
     (let max_workers = min (length prompt_templates) 4 in
      if max_workers \<le> 0 then (Inl ''max_workers must be greater than 0'', m)
      else
        (case run_tasks llm document prompt_templates (calls m) of
           (details, tr) \<Rightarrow>
             (let results_dict = dict_of (map (\<lambda>r. (name r, result r)) details);
                  successful_results =
                    dict_of (map (\<lambda>r. (name r, result r)) (filter task_success details))
              in case synthesize llm document synthesis_template successful_results tr of
                   (synthesis_result, tr') \<Rightarrow>
                     (Inr \<lparr>parallel_success = True,
                           parallel_results = results_dict,
                           successful_count = int (length successful_results),
                           failed_count = int (length details) - int (length successful_results),
                           synthesis = synthesis_result,
                           execution_details = details,
                           max_workers_used = max_workers\<rparr>,
                      m\<lparr>calls := tr'\<rparr>))))"

subsection \<open>Reading the observation log\<close>

fun is_invocation :: "event \<Rightarrow> bool" where
  "is_invocation (Invoked t v) = True"
| "is_invocation (Validated n x) = False"

definition invocations :: "event list \<Rightarrow> nat" where
  "invocations tr = length (filter is_invocation tr)"

text \<open>
  The number of calls of the callable that one attempt of a step makes on an input: one
  when the prompt is built, none when building it raises.
\<close>

definition calls_per_attempt :: "template_check \<Rightarrow> chain_step \<Rightarrow> string \<Rightarrow> nat" where
  "calls_per_attempt template_error s current_input =
     (case template_error (template s) [(''input'', current_input)] of
        None \<Rightarrow> 1
      | Some e \<Rightarrow> 0)"

text \<open>The call that the task of one entry of \<^verbatim>\<open>prompt_templates\<close> makes.\<close>

definition task_call :: "string \<Rightarrow> string \<times> string \<Rightarrow> event" where
  "task_call document nt = Invoked (snd nt) [(''document'', document)]"

text \<open>A named validator passes on a text when it returns a true verdict without raising.\<close>

definition passes :: "string \<Rightarrow> string \<times> validator \<Rightarrow> bool" where
  "passes out nv = (snd nv out = Inr True)"

text \<open>
  Reading a key of the returned dictionary; \<open>None\<close> where the key is absent
  (\<^verbatim>\<open>KeyError\<close> in Python).
\<close>

fun success :: "chain_outcome \<Rightarrow> bool" where
  "success (Success rs out h pm lg) = True"
| "success (Failure e rs h pm) = False"

fun results :: "chain_outcome \<Rightarrow> step_result list option" where
  "results (Success rs out h pm lg) = Some rs"
| "results (Failure e rs h pm) = None"

fun final_output :: "chain_outcome \<Rightarrow> string option" where
  "final_output (Success rs out h pm lg) = Some out"
| "final_output (Failure e rs h pm) = None"

fun error :: "chain_outcome \<Rightarrow> string option" where
  "error (Success rs out h pm lg) = None"
| "error (Failure e rs h pm) = Some e"

fun partial_results :: "chain_outcome \<Rightarrow> step_result list option" where
  "partial_results (Success rs out h pm lg) = None"
| "partial_results (Failure e rs h pm) = Some rs"

fun execution_history :: "chain_outcome \<Rightarrow> step_log list" where
  "execution_history (Success rs out h pm lg) = h"
| "execution_history (Failure e rs h pm) = h"

subsection \<open>Example inputs\<close>

text \<open>
  A manager as \<^verbatim>\<open>__init__\<close> leaves it, a step with a template only, a callable that
  echoes the variable \<^verbatim>\<open>input\<close> (or \<^verbatim>\<open>document\<close>) prefixed with \<^verbatim>\<open>OUT:\<close>, a callable that
  raises on its first call only, a callable that always raises, and validators that always pass or always fail.
\<close>

definition new_manager :: manager where
  "new_manager = \<lparr>chain_history = [], execution_log = [], step_timings = [], calls = []\<rparr>"

definition plain_step :: "string \<Rightarrow> chain_step" where
  "plain_step t = \<lparr>template = t, validators = None, validator = None\<rparr>"

definition checked_step :: "string \<Rightarrow> (string \<times> validator) list \<Rightarrow> chain_step" where
  "checked_step t vs = \<lparr>template = t, validators = Some vs, validator = None\<rparr>"

text \<open>
  A stand-in for the template parser, enough for the examples: it rejects a template
  whose first opening brace is never closed, with the message of Python's format-string
  parser, and accepts every other template.
\<close>

definition unclosed_brace :: template_check where
  "unclosed_brace t vars =
     (if CHR ''{'' \<in> set t \<and> CHR ''}'' \<notin> set (dropWhile (\<lambda>c. c \<noteq> CHR ''{'') t)
      then Some (''expected '' @ [CHR 0x27, CHR ''}'', CHR 0x27] @ '' before end of string'')
      else None)"

definition echo_llm :: llm where
  "echo_llm tr tmpl vars = Inr (''OUT:'' @ snd (hd vars))"

definition flaky_llm :: llm where
  "flaky_llm tr tmpl vars =
     (if invocations tr = 0 then Inl ''timeout'' else Inr (''OUT:'' @ snd (hd vars)))"

definition failing_llm :: llm where
  "failing_llm tr tmpl vars = Inl ''boom''"

definition always_true :: validator where
  "always_true text = Inr True"

definition always_false :: validator where
  "always_false text = Inr False"

text \<open>A callable that raises on the template \<^verbatim>\<open>fail {document}\<close> and echoes otherwise.\<close>

definition picky_llm :: llm where
  "picky_llm tr tmpl vars =
     (if tmpl = ''fail {document}'' then Inl ''boom'' else Inr (''OUT:'' @ snd (hd vars)))"

section \<open>Attempts and the retry loop\<close>

lemma invocations_snoc [simp]:
  "invocations (tr @ [Invoked t v]) = Suc (invocations tr)"
  "invocations (tr @ [Validated n x]) = invocations tr"
  by (simp_all add: invocations_def)

lemma run_validators_invocations:
  "invocations (snd (run_validators n vs res acc tr)) = invocations tr"
  by (induction vs arbitrary: acc tr)
     (auto simp: Let_def split: sum.splits)

lemma validate_invocations:
  "invocations (snd (validate n s res tr)) = invocations tr"
  by (auto simp: validate_def run_validators_invocations Let_def
           split: option.splits sum.splits)

lemma attempt_invocations:
  "invocations (calls (snd (attempt te llm i s cur rc m)))
     = invocations (calls m) + calls_per_attempt te s cur"
proof (cases "te (template s) [(''input'', cur)]")
  case (Some e)
  then show ?thesis by (simp add: attempt_def calls_per_attempt_def Let_def)
next
  case None
  show ?thesis
  proof (cases "llm (calls m) (template s) [(''input'', cur)]")
    case (Inl e)
    with None show ?thesis by (simp add: attempt_def calls_per_attempt_def Let_def)
  next
    case (Inr res)
    let ?tr = "calls m @ [Invoked (template s) [(''input'', cur)]]"
    have v: "invocations (snd (validate (i + 1) s res ?tr)) = Suc (invocations (calls m))"
      by (simp add: validate_invocations)
    show ?thesis
    proof (cases "validate (i + 1) s res ?tr")
      case (Pair a tr')
      with v Inr None show ?thesis
        by (cases a) (simp_all add: attempt_def calls_per_attempt_def Let_def)
    qed
  qed
qed

lemma run_validators_all_pass:
  "\<forall>nv \<in> set vs. passes out nv \<Longrightarrow>
     run_validators n vs out acc tr
       = (Inr (acc @ map (\<lambda>nv. (fst nv, True)) vs),
          tr @ map (\<lambda>nv. Validated (fst nv) out) vs)"
  by (induction vs arbitrary: acc tr) (auto simp: passes_def Let_def)

lemma run_validators_first_failure:
  "\<not> (\<forall>nv \<in> set vs. passes out nv) \<Longrightarrow>
     \<exists>e. run_validators n vs out acc tr
       = (Inl e, tr @ map (\<lambda>nv. Validated (fst nv) out)
                        (takeWhile (passes out) vs @ take 1 (dropWhile (passes out) vs)))"
proof (induction vs arbitrary: acc tr)
  case Nil
  then show ?case by simp
next
  case (Cons nv vs)
  obtain nm f where nv: "nv = (nm, f)" by (cases nv)
  show ?case
  proof (cases "passes out nv")
    case True
    with Cons.prems have "\<not> (\<forall>nv \<in> set vs. passes out nv)" by simp
    from Cons.IH[OF this, of "acc @ [(nm, True)]" "tr @ [Validated nm out]"]
    show ?thesis using True nv by (auto simp: passes_def Let_def)
  next
    case False
    then show ?thesis using nv
      by (cases "f out") (auto simp: passes_def Let_def)
  qed
qed

lemma attempt_history:
  "chain_history (snd (attempt te llm i s cur rc m))
     = chain_history m @ [\<lparr>log_step = i + 1, log_template = template s,
                            input_preview = cur, retry_attempt = rc\<rparr>]"
  by (simp add: attempt_def Let_def split: sum.splits prod.splits option.splits)

lemma attempt_result:
  "attempt te llm i s cur rc m = (Inr r, m') \<Longrightarrow>
     step r = i + 1 \<and> retry_count r = rc \<and> calls_per_attempt te s cur = 1"
  by (auto simp: attempt_def calls_per_attempt_def Let_def
           split: sum.splits prod.splits option.splits)

lemma retry_loop_completed:
  "retry_loop te llm mr i s cur rc m = (Completed r, m') \<Longrightarrow>
     step r = i + 1 \<and> rc \<le> retry_count r \<and> retry_count r \<le> mr
     \<and> calls_per_attempt te s cur = 1
     \<and> int (invocations (calls m')) = int (invocations (calls m)) + (retry_count r - rc + 1)
     \<and> int (length (chain_history m'))
          = int (length (chain_history m)) + (retry_count r - rc + 1)"
proof (induction te llm mr i s cur rc m rule: retry_loop.induct)
  case (1 te llm mr i s cur rc m)
  show ?case
  proof (cases "attempt te llm i s cur rc m")
    case (Pair a m1)
    have inv: "invocations (calls m1) = invocations (calls m) + calls_per_attempt te s cur"
      using attempt_invocations[of te llm i s cur rc m] Pair by simp
    have his: "length (chain_history m1) = Suc (length (chain_history m))"
      using attempt_history[of te llm i s cur rc m] Pair by simp
    show ?thesis
    proof (cases a)
      case (Inl e)
      show ?thesis
      proof (cases "rc \<le> mr \<and> \<not> rc + 1 > mr")
        case True
        with 1 Pair Inl have
          ih: "step r = i + 1 \<and> rc + 1 \<le> retry_count r \<and> retry_count r \<le> mr
               \<and> calls_per_attempt te s cur = 1
               \<and> int (invocations (calls m')) = int (invocations (calls m1)) + (retry_count r - (rc + 1) + 1)
               \<and> int (length (chain_history m'))
                    = int (length (chain_history m1)) + (retry_count r - (rc + 1) + 1)"
          by (simp add: retry_loop.simps[of te llm mr i s cur rc m])
        with inv his show ?thesis by simp
      next
        case False
        with 1 Pair Inl show ?thesis
          by (auto simp: retry_loop.simps[of te llm mr i s cur rc m] split: if_splits)
      qed
    next
      case (Inr r')
      with 1 Pair inv his attempt_result[of te llm i s cur rc m r' m1] show ?thesis
        by (auto simp: retry_loop.simps[of te llm mr i s cur rc m] split: if_splits)
    qed
  qed
qed

lemma retry_loop_exhausted:
  "retry_loop te llm mr i s cur rc m = (Exhausted e rc', m') \<Longrightarrow>
     rc' = mr + 1 \<and> rc \<le> mr
     \<and> int (invocations (calls m'))
          = int (invocations (calls m)) + (mr + 1 - rc) * int (calls_per_attempt te s cur)
     \<and> int (length (chain_history m')) = int (length (chain_history m)) + (mr + 1 - rc)"
proof (induction te llm mr i s cur rc m rule: retry_loop.induct)
  case (1 te llm mr i s cur rc m)
  show ?case
  proof (cases "attempt te llm i s cur rc m")
    case (Pair a m1)
    have inv: "invocations (calls m1) = invocations (calls m) + calls_per_attempt te s cur"
      using attempt_invocations[of te llm i s cur rc m] Pair by simp
    have his: "length (chain_history m1) = Suc (length (chain_history m))"
      using attempt_history[of te llm i s cur rc m] Pair by simp
    show ?thesis
    proof (cases a)
      case (Inl e')
      show ?thesis
      proof (cases "rc \<le> mr \<and> \<not> rc + 1 > mr")
        case True
        with 1 Pair Inl have
          ih: "rc' = mr + 1 \<and> rc + 1 \<le> mr
               \<and> int (invocations (calls m'))
                    = int (invocations (calls m1))
                      + (mr + 1 - (rc + 1)) * int (calls_per_attempt te s cur)
               \<and> int (length (chain_history m'))
                    = int (length (chain_history m1)) + (mr + 1 - (rc + 1))"
          by (simp add: retry_loop.simps[of te llm mr i s cur rc m])
        with inv his show ?thesis by (simp add: algebra_simps)
      next
        case False
        with 1 Pair Inl inv his show ?thesis
          by (auto simp: retry_loop.simps[of te llm mr i s cur rc m] algebra_simps split: if_splits)
      qed
    next
      case (Inr r')
      with 1 Pair show ?thesis
        by (auto simp: retry_loop.simps[of te llm mr i s cur rc m] split: if_splits)
    qed
  qed
qed

lemma retry_loop_not_run:
  "retry_loop te llm mr i s cur rc m = (NotRun, m') \<Longrightarrow> mr < rc \<and> m' = m"
proof (induction te llm mr i s cur rc m rule: retry_loop.induct)
  case (1 te llm mr i s cur rc m)
  then show ?case
    by (auto simp: retry_loop.simps[of te llm mr i s cur rc m] split: if_splits sum.splits prod.splits)
qed

text \<open>Attempts that all fail exhaust the retries.\<close>

lemma retry_loop_unfold_failed:
  assumes "fst (attempt te llm i s cur rc m) = Inl e"
  shows "retry_loop te llm mr i s cur rc m
           = (if rc \<le> mr
              then if rc + 1 > mr
                   then (Exhausted e (rc + 1), snd (attempt te llm i s cur rc m))
                   else retry_loop te llm mr i s cur (rc + 1) (snd (attempt te llm i s cur rc m))
              else (NotRun, m))"
proof -
  from assms have "attempt te llm i s cur rc m = (Inl e, snd (attempt te llm i s cur rc m))"
    by (simp add: prod_eq_iff)
  then obtain m1 where at: "attempt te llm i s cur rc m = (Inl e, m1)"
    and m1: "snd (attempt te llm i s cur rc m) = m1"
    by simp
  show ?thesis
    by (subst retry_loop.simps) (simp only: at prod.case sum.case snd_conv)
qed

lemma retry_loop_all_fail:
  assumes mr: "0 \<le> mr"
    and fails: "\<forall>n \<le> nat mr. isl (fst (attempt te llm i s cur (int n)
                                         (after_attempts te llm i s cur n m)))"
    and j: "j \<le> nat mr"
  shows "retry_loop te llm mr i s cur (int j) (after_attempts te llm i s cur j m)
           = (Exhausted (projl (fst (attempt te llm i s cur mr
                                      (after_attempts te llm i s cur (nat mr) m))))
                        (mr + 1),
              after_attempts te llm i s cur (Suc (nat mr)) m)"
  using j
proof (induction "nat mr - j" arbitrary: j)
  case 0
  then have jm: "j = nat mr" by simp
  with mr have ij: "int j = mr" by simp
  from fails "0.prems" have "isl (fst (attempt te llm i s cur (int j) (after_attempts te llm i s cur j m)))"
    by blast
  then obtain e where
    fe: "fst (attempt te llm i s cur (int j) (after_attempts te llm i s cur j m)) = Inl e"
    by (cases "fst (attempt te llm i s cur (int j) (after_attempts te llm i s cur j m))") auto
  have "retry_loop te llm mr i s cur (int j) (after_attempts te llm i s cur j m)
          = (Exhausted e (int j + 1), after_attempts te llm i s cur (Suc j) m)"
    unfolding retry_loop_unfold_failed[OF fe] using ij by simp
  moreover have "projl (fst (attempt te llm i s cur (int j) (after_attempts te llm i s cur j m))) = e"
    by (simp add: fe)
  ultimately show ?case
    unfolding jm using mr by simp
next
  case (Suc d)
  then have lt: "j < nat mr" by simp
  with mr have ij: "int j \<le> mr" "\<not> int j + 1 > mr" by simp_all
  from fails Suc.prems have "isl (fst (attempt te llm i s cur (int j) (after_attempts te llm i s cur j m)))"
    by blast
  then obtain e where
    fe: "fst (attempt te llm i s cur (int j) (after_attempts te llm i s cur j m)) = Inl e"
    by (cases "fst (attempt te llm i s cur (int j) (after_attempts te llm i s cur j m))") auto
  have d: "d = nat mr - Suc j" using Suc.hyps(2) by simp
  have sj: "Suc j \<le> nat mr" using lt by simp
  have "retry_loop te llm mr i s cur (int j) (after_attempts te llm i s cur j m)
          = retry_loop te llm mr i s cur (int (Suc j)) (after_attempts te llm i s cur (Suc j) m)"
    unfolding retry_loop_unfold_failed[OF fe] using ij by (simp add: add.commute)
  with Suc.hyps(1)[OF d sj] show ?case by simp
qed

section \<open>The loop over the steps\<close>

lemma run_steps_append:
  "run_steps te llm mr i (xs @ ys) cur rs m =
     (case run_steps te llm mr i xs cur rs m of
        (Inl f, m') \<Rightarrow> (Inl f, m')
      | (Inr (cur', rs'), m') \<Rightarrow> run_steps te llm mr (i + length xs) ys cur' rs' m')"
proof (induction xs arbitrary: i cur rs m)
  case Nil
  show ?case by simp
next
  case (Cons x xs)
  show ?case
  proof (cases "retry_loop te llm mr i x cur 0 m")
    case (Pair o1 m1)
    then show ?thesis
      by (cases o1) (auto simp: Cons.IH split: prod.splits sum.splits)
  qed
qed

lemma run_steps_results:
  "run_steps te llm mr i steps cur rs m = (Inr (cur', rs'), m') \<Longrightarrow>
     \<exists>new. rs' = rs @ new
       \<and> (\<forall>r \<in> set new. 0 \<le> retry_count r \<and> retry_count r \<le> mr)
       \<and> cur' = (if new = [] then cur else output_text (last new))
       \<and> int (invocations (calls m'))
            = int (invocations (calls m)) + (\<Sum>r\<leftarrow>new. retry_count r + 1)
       \<and> int (length (chain_history m'))
            = int (length (chain_history m)) + (\<Sum>r\<leftarrow>new. retry_count r + 1)"
proof (induction steps arbitrary: i cur rs m)
  case Nil
  then show ?case by simp
next
  case (Cons x xs)
  show ?case
  proof (cases "retry_loop te llm mr i x cur 0 m")
    case (Pair o1 m1)
    show ?thesis
    proof (cases o1)
      case (Completed r)
      with Pair Cons.prems
      have rest: "run_steps te llm mr (i + 1) xs (output_text r) (rs @ [r]) m1 = (Inr (cur', rs'), m')"
        by simp
      from Cons.IH[OF rest] obtain new where
        n: "rs' = (rs @ [r]) @ new"
           "\<forall>r \<in> set new. 0 \<le> retry_count r \<and> retry_count r \<le> mr"
           "cur' = (if new = [] then output_text r else output_text (last new))"
           "int (invocations (calls m'))
              = int (invocations (calls m1)) + (\<Sum>r\<leftarrow>new. retry_count r + 1)"
           "int (length (chain_history m'))
              = int (length (chain_history m1)) + (\<Sum>r\<leftarrow>new. retry_count r + 1)"
        by blast
      from retry_loop_completed[of te llm mr i x cur 0 m r m1] Pair Completed
      have c: "0 \<le> retry_count r" "retry_count r \<le> mr"
        "int (invocations (calls m1)) = int (invocations (calls m)) + (retry_count r + 1)"
        "int (length (chain_history m1)) = int (length (chain_history m)) + (retry_count r + 1)"
        by simp_all
      show ?thesis
        using n c by (intro exI[of _ "r # new"]) simp
    next
      case (Exhausted e rc)
      with Pair Cons.prems show ?thesis by simp
    next
      case NotRun
      with Pair retry_loop_not_run[of te llm mr i x cur 0 m m1] have "m1 = m" by simp
      with NotRun Pair Cons.prems
      have rest: "run_steps te llm mr (i + 1) xs cur rs m = (Inr (cur', rs'), m')"
        by simp
      from Cons.IH[OF rest] show ?thesis .
    qed
  qed
qed

lemma run_steps_steps:
  "0 \<le> mr \<Longrightarrow> run_steps te llm mr i steps cur rs m = (Inr (cur', rs'), m') \<Longrightarrow>
     map step rs' = map step rs @ [i + 1 ..< i + 1 + length steps]"
proof (induction steps arbitrary: i cur rs m)
  case Nil
  then show ?case by simp
next
  case (Cons x xs)
  show ?case
  proof (cases "retry_loop te llm mr i x cur 0 m")
    case (Pair o1 m1)
    show ?thesis
    proof (cases o1)
      case (Completed r)
      with Pair Cons.prems
      have rest: "run_steps te llm mr (i + 1) xs (output_text r) (rs @ [r]) m1 = (Inr (cur', rs'), m')"
        by simp
      from retry_loop_completed[of te llm mr i x cur 0 m r m1] Pair Completed
      have c: "step r = i + 1" by simp
      have "[Suc i ..< Suc (Suc (i + length xs))] = Suc i # [Suc (Suc i) ..< Suc (Suc (i + length xs))]"
        by (rule upt_conv_Cons) simp
      then have "[i + 1 ..< i + 1 + length (x # xs)] = (i + 1) # [i + 1 + 1 ..< i + 1 + 1 + length xs]"
        by simp
      with Cons.IH[OF Cons.prems(1) rest] c show ?thesis by simp
    next
      case (Exhausted e rc)
      with Pair Cons.prems show ?thesis by simp
    next
      case NotRun
      with Pair retry_loop_not_run[of te llm mr i x cur 0 m m1] Cons.prems(1)
      show ?thesis by simp
    qed
  qed
qed

lemma run_steps_failed:
  "run_steps te llm mr i steps cur rs m = (Inl f, m') \<Longrightarrow>
     \<exists>k e new. k < length steps \<and> 0 \<le> mr
       \<and> f = Failure (''Chain failed at step '' @ str_nat (i + k + 1) @ '' after ''
                        @ str_int (mr + 1) @ '' attempts: '' @ e)
                     (rs @ new) (chain_history m') (get_summary m')
       \<and> length new = k
       \<and> (\<forall>r \<in> set new. 0 \<le> retry_count r \<and> retry_count r \<le> mr)
       \<and> int (invocations (calls m'))
            = int (invocations (calls m)) + (\<Sum>r\<leftarrow>new. retry_count r + 1)
              + (mr + 1) * int (calls_per_attempt te (steps ! k)
                                 (if new = [] then cur else output_text (last new)))
       \<and> int (length (chain_history m'))
            = int (length (chain_history m)) + (\<Sum>r\<leftarrow>new. retry_count r + 1) + (mr + 1)"
proof (induction steps arbitrary: i cur rs m)
  case Nil
  then show ?case by simp
next
  case (Cons x xs)
  show ?case
  proof (cases "retry_loop te llm mr i x cur 0 m")
    case (Pair o1 m1)
    show ?thesis
    proof (cases o1)
      case (Completed r)
      with Pair Cons.prems
      have rest: "run_steps te llm mr (i + 1) xs (output_text r) (rs @ [r]) m1 = (Inl f, m')"
        by simp
      from Cons.IH[OF rest] obtain k e new where
        n: "k < length xs" "0 \<le> mr"
           "f = Failure (''Chain failed at step '' @ str_nat (i + 1 + k + 1) @ '' after ''
                        @ str_int (mr + 1) @ '' attempts: '' @ e)
                     ((rs @ [r]) @ new) (chain_history m') (get_summary m')"
           "length new = k"
           "\<forall>r \<in> set new. 0 \<le> retry_count r \<and> retry_count r \<le> mr"
           "int (invocations (calls m'))
              = int (invocations (calls m1)) + (\<Sum>r\<leftarrow>new. retry_count r + 1)
                + (mr + 1) * int (calls_per_attempt te (xs ! k)
                                   (if new = [] then output_text r else output_text (last new)))"
           "int (length (chain_history m'))
              = int (length (chain_history m1)) + (\<Sum>r\<leftarrow>new. retry_count r + 1) + (mr + 1)"
        by blast
      from retry_loop_completed[of te llm mr i x cur 0 m r m1] Pair Completed
      have c: "0 \<le> retry_count r" "retry_count r \<le> mr"
        "int (invocations (calls m1)) = int (invocations (calls m)) + (retry_count r + 1)"
        "int (length (chain_history m1)) = int (length (chain_history m)) + (retry_count r + 1)"
        by simp_all
      show ?thesis
        using n c by (intro exI[of _ "Suc k"] exI[of _ e] exI[of _ "r # new"]) simp
    next
      case (Exhausted e rc)
      from retry_loop_exhausted[of te llm mr i x cur 0 m e rc m1] Pair Exhausted
      have c: "0 \<le> mr"
        "int (invocations (calls m1))
           = int (invocations (calls m)) + (mr + 1) * int (calls_per_attempt te x cur)"
        "int (length (chain_history m1)) = int (length (chain_history m)) + (mr + 1)"
        by simp_all
      from Pair Exhausted Cons.prems
      have f: "f = Failure (''Chain failed at step '' @ str_nat (i + 1) @ '' after ''
                        @ str_int (mr + 1) @ '' attempts: '' @ e)
                     rs (chain_history m1) (get_summary m1)"
        and m': "m' = m1\<lparr>execution_log := execution_log m1 @ [LogFailed e (i + 1) (rc - 1)]\<rparr>"
        by simp_all
      show ?thesis
        using c f m'
        by (intro exI[of _ "0"] exI[of _ e] exI[of _ "[]"]) (simp add: get_summary_def)
    next
      case NotRun
      with Pair retry_loop_not_run[of te llm mr i x cur 0 m m1] have m1: "m1 = m" "mr < 0" by simp_all
      with NotRun Pair Cons.prems
      have rest: "run_steps te llm mr (i + 1) xs cur rs m = (Inl f, m')"
        by simp
      from Cons.IH[OF rest] m1 show ?thesis by auto
    qed
  qed
qed

lemma retry_loop_history:
  "retry_loop te llm mr i s cur rc m = (res, m') \<Longrightarrow>
     \<exists>h. chain_history m' = chain_history m @ h \<and> (\<forall>l \<in> set h. log_step l = i + 1)"
proof (induction te llm mr i s cur rc m rule: retry_loop.induct)
  case (1 te llm mr i s cur rc m)
  show ?case
  proof (cases "attempt te llm i s cur rc m")
    case (Pair a m1)
    have h1: "chain_history m1
       = chain_history m @ [\<lparr>log_step = i + 1, log_template = template s,
                              input_preview = cur, retry_attempt = rc\<rparr>]"
      using attempt_history[of te llm i s cur rc m] Pair by simp
    show ?thesis
    proof (cases a)
      case (Inl e)
      show ?thesis
      proof (cases "rc \<le> mr \<and> \<not> rc + 1 > mr")
        case True
        with 1 Pair Inl have "\<exists>h. chain_history m' = chain_history m1 @ h \<and> (\<forall>l \<in> set h. log_step l = i + 1)"
          by (simp add: retry_loop.simps[of te llm mr i s cur rc m])
        with h1 show ?thesis by auto
      next
        case False
        with 1 Pair Inl h1 show ?thesis
          by (auto simp: retry_loop.simps[of te llm mr i s cur rc m] split: if_splits)
      qed
    next
      case (Inr r')
      with 1 Pair h1 show ?thesis
        by (auto simp: retry_loop.simps[of te llm mr i s cur rc m] split: if_splits)
    qed
  qed
qed

lemma run_steps_history:
  "run_steps te llm mr i steps cur rs m = (res, m') \<Longrightarrow>
     \<exists>h. chain_history m' = chain_history m @ h
       \<and> (\<forall>l \<in> set h. i < log_step l \<and> log_step l \<le> i + length steps)"
proof (induction steps arbitrary: i cur rs m)
  case Nil
  then show ?case by simp
next
  case (Cons x xs)
  show ?case
  proof (cases "retry_loop te llm mr i x cur 0 m")
    case (Pair o1 m1)
    from retry_loop_history[OF Pair] obtain h1 where
      h1: "chain_history m1 = chain_history m @ h1" "\<forall>l \<in> set h1. log_step l = i + 1"
      by blast
    show ?thesis
    proof (cases o1)
      case (Completed r)
      with Pair Cons.prems
      have rest: "run_steps te llm mr (i + 1) xs (output_text r) (rs @ [r]) m1 = (res, m')"
        by simp
      from Cons.IH[OF rest] obtain h2 where
        h2: "chain_history m' = chain_history m1 @ h2"
            "\<forall>l \<in> set h2. i + 1 < log_step l \<and> log_step l \<le> i + 1 + length xs"
        by blast
      show ?thesis
        using h1 h2 by (intro exI[of _ "h1 @ h2"]) auto
    next
      case (Exhausted e rc)
      with Pair Cons.prems have "chain_history m' = chain_history m1" by auto
      with h1 show ?thesis by (intro exI[of _ h1]) auto
    next
      case NotRun
      with Pair Cons.prems
      have rest: "run_steps te llm mr (i + 1) xs cur rs m1 = (res, m')"
        by simp
      from Cons.IH[OF rest] obtain h2 where
        h2: "chain_history m' = chain_history m1 @ h2"
            "\<forall>l \<in> set h2. i + 1 < log_step l \<and> log_step l \<le> i + 1 + length xs"
        by blast
      show ?thesis
        using h1 h2 by (intro exI[of _ "h1 @ h2"]) auto
    qed
  qed
qed


lemmas str_eval = str_nat.simps str_int_def digit_char_def

lemmas run_eval = execute_sequential_chain_def retry_loop.simps attempt_def validate_def
  unclosed_brace_def calls_per_attempt_def
  plain_step_def checked_step_def echo_llm_def flaky_llm_def failing_llm_def invocations_def always_true_def always_false_def
  new_manager_def get_summary_def Let_def


section \<open>Dictionaries and the loop over the tasks\<close>

lemma dict_set_keys: "fst ` set (dict_set k v d) = insert k (fst ` set d)"
  by (induction d) auto

lemma foldl_dict_set_keys:
  "fst ` set (foldl (\<lambda>d (k, v). dict_set k v d) d ps) = fst ` set d \<union> fst ` set ps"
proof (induction ps arbitrary: d)
  case Nil
  show ?case by simp
next
  case (Cons p ps)
  obtain k v where p: "p = (k, v)" by (cases p)
  show ?case
    using Cons.IH[of "dict_set k v d"] by (simp add: p dict_set_keys)
qed

lemma dict_of_keys: "fst ` set (dict_of ps) = fst ` set ps"
  by (simp add: dict_of_def foldl_dict_set_keys)

lemma dict_set_fresh: "k \<notin> set (map fst d) \<Longrightarrow> dict_set k v d = d @ [(k, v)]"
  by (induction d) auto

lemma foldl_dict_set_distinct:
  "distinct (map fst (d @ ps)) \<Longrightarrow> foldl (\<lambda>d (k, v). dict_set k v d) d ps = d @ ps"
proof (induction ps arbitrary: d)
  case Nil
  then show ?case by simp
next
  case (Cons p ps)
  obtain k v where p: "p = (k, v)" by (cases p)
  from Cons.prems p have fresh: "k \<notin> set (map fst d)" by auto
  from Cons.prems p have "distinct (map fst ((d @ [(k, v)]) @ ps))" by auto
  from Cons.IH[OF this] fresh p show ?case by (simp add: dict_set_fresh)
qed

lemma dict_of_distinct: "distinct (map fst ps) \<Longrightarrow> dict_of ps = ps"
  using foldl_dict_set_distinct[of "[]" ps] by (simp add: dict_of_def)

lemma dict_of_Nil_iff: "dict_of ps = [] \<longleftrightarrow> ps = []"
proof
  assume "dict_of ps = []"
  with dict_of_keys[of ps] have "fst ` set ps = {}" by simp
  then show "ps = []" by simp
next
  assume "ps = []"
  then show "dict_of ps = []" by (simp add: dict_of_def)
qed

lemma run_single_prompt_name:
  "name (fst (run_single_prompt llm document nm tmpl tr)) = nm"
  by (simp add: run_single_prompt_def Let_def split: sum.splits)

lemma run_single_prompt_calls:
  "snd (run_single_prompt llm document nm tmpl tr) = tr @ [task_call document (nm, tmpl)]"
  by (simp add: run_single_prompt_def task_call_def Let_def split: sum.splits)

lemma run_tasks_Cons:
  "run_tasks llm document ((nm, tmpl) # rest) tr
     = (fst (run_single_prompt llm document nm tmpl tr)
          # fst (run_tasks llm document rest (snd (run_single_prompt llm document nm tmpl tr))),
        snd (run_tasks llm document rest (snd (run_single_prompt llm document nm tmpl tr))))"
  by (simp split: prod.splits)

lemma run_tasks_calls:
  "snd (run_tasks llm document ts tr) = tr @ map (task_call document) ts"
proof (induction ts arbitrary: tr)
  case Nil
  show ?case by simp
next
  case (Cons t ts)
  obtain nm tmpl where t: "t = (nm, tmpl)" by (cases t)
  show ?case
    by (simp only: t run_tasks_Cons snd_conv Cons.IH run_single_prompt_calls) simp
qed

lemma run_tasks_length:
  "length (fst (run_tasks llm document ts tr)) = length ts"
proof (induction ts arbitrary: tr)
  case Nil
  show ?case by simp
next
  case (Cons t ts)
  obtain nm tmpl where t: "t = (nm, tmpl)" by (cases t)
  show ?case
    by (simp only: t run_tasks_Cons fst_conv Cons.IH list.size) 
qed

lemma run_tasks_nth:
  "j < length ts \<Longrightarrow>
     fst (run_tasks llm document ts tr) ! j
       = fst (run_single_prompt llm document (fst (ts ! j)) (snd (ts ! j))
                (tr @ map (task_call document) (take j ts)))"
proof (induction ts arbitrary: tr j)
  case Nil
  then show ?case by simp
next
  case (Cons t ts)
  obtain nm tmpl where t: "t = (nm, tmpl)" by (cases t)
  show ?case
  proof (cases j)
    case 0
    then show ?thesis by (simp add: t run_tasks_Cons del: run_tasks.simps)
  next
    case (Suc j')
    with Cons.prems have j': "j' < length ts" by simp
    from Cons.IH[OF j', of "tr @ [task_call document (nm, tmpl)]"]
    show ?thesis
      by (simp add: t Suc run_tasks_Cons run_single_prompt_calls del: run_tasks.simps)
  qed
qed

lemma run_tasks_names:
  "map name (fst (run_tasks llm document ts tr)) = map fst ts"
proof (rule nth_equalityI)
  show "length (map name (fst (run_tasks llm document ts tr))) = length (map fst ts)"
    by (simp add: run_tasks_length)
next
  fix j assume "j < length (map name (fst (run_tasks llm document ts tr)))"
  then have j: "j < length ts" by (simp add: run_tasks_length)
  then show "map name (fst (run_tasks llm document ts tr)) ! j = map fst ts ! j"
    by (simp add: run_tasks_length run_tasks_nth run_single_prompt_name)
qed

lemma execute_parallel_nonempty:
  assumes ne: "prompt_templates \<noteq> []"
  shows "execute_parallel_chains llm prompt_templates document synthesis_template m
     = (Inr \<lparr>parallel_success = True,
             parallel_results =
               dict_of (map (\<lambda>r. (name r, result r))
                          (fst (run_tasks llm document prompt_templates (calls m)))),
             successful_count =
               int (length (dict_of (map (\<lambda>r. (name r, result r))
                     (filter task_success
                        (fst (run_tasks llm document prompt_templates (calls m))))))),
             failed_count =
               int (length (fst (run_tasks llm document prompt_templates (calls m))))
               - int (length (dict_of (map (\<lambda>r. (name r, result r))
                     (filter task_success
                        (fst (run_tasks llm document prompt_templates (calls m))))))),
             synthesis =
               fst (synthesize llm document synthesis_template
                     (dict_of (map (\<lambda>r. (name r, result r))
                        (filter task_success
                           (fst (run_tasks llm document prompt_templates (calls m))))))
                     (calls m @ map (task_call document) prompt_templates)),
             execution_details = fst (run_tasks llm document prompt_templates (calls m)),
             max_workers_used = min (length prompt_templates) 4\<rparr>,
        m\<lparr>calls :=
            snd (synthesize llm document synthesis_template
                     (dict_of (map (\<lambda>r. (name r, result r))
                        (filter task_success
                           (fst (run_tasks llm document prompt_templates (calls m))))))
                     (calls m @ map (task_call document) prompt_templates))\<rparr>)"
proof -
  have w: "\<not> min (length prompt_templates) 4 \<le> 0" using ne by simp
  obtain details tr where rt: "run_tasks llm document prompt_templates (calls m) = (details, tr)"
    by (cases "run_tasks llm document prompt_templates (calls m)")
  with run_tasks_calls[of llm document prompt_templates "calls m"]
  have tr: "tr = calls m @ map (task_call document) prompt_templates" by simp
  show ?thesis
    unfolding execute_parallel_chains_def Let_def
    using w by (simp add: rt tr split: prod.splits)
qed

lemma synthesize_nothing: "synthesize llm document synthesis_template [] tr = (None, tr)"
  by (simp add: synthesize_def split: option.splits)

lemmas parallel_eval = execute_parallel_chains_def run_single_prompt_def synthesize_def
  dict_of_def task_call_def picky_llm_def failing_llm_def echo_llm_def new_manager_def Let_def

section \<open>Properties of the sequential run\<close>

text \<open>
  Claim C1. Every sequential run that returns success has one entry of \<^verbatim>\<open>results\<close> per
  step, in order: \<^verbatim>\<open>len(results) == len(steps)\<close> and \<^verbatim>\<open>results[i].step == i + 1\<close>; and
  \<^verbatim>\<open>final_output\<close> is the output of the last entry. The retry bound is the
  non-negative count of the executor's contract. With no step there is no last entry,
  and \<^verbatim>\<open>final_output\<close> is the initial input.
\<close>

theorem successful_chain_results:
  assumes mr: "0 \<le> max_retries"
    and ok: "success (fst (execute_sequential_chain template_error llm max_retries chain_steps
                             initial_input m))"
  shows "\<exists>rs out.
           results (fst (execute_sequential_chain template_error llm max_retries chain_steps
                          initial_input m)) = Some rs
         \<and> final_output (fst (execute_sequential_chain template_error llm max_retries chain_steps
                          initial_input m)) = Some out
         \<and> length rs = length chain_steps
         \<and> (\<forall>i < length rs. step (rs ! i) = i + 1)
         \<and> out = (if rs = [] then initial_input else output_text (last rs))"
proof (cases "run_steps template_error llm max_retries 0 chain_steps initial_input [] m")
  case (Pair a m')
  show ?thesis
  proof (cases a)
    case (Inl f)
    with Pair run_steps_failed[of template_error llm max_retries 0 chain_steps initial_input "[]" m f m']
    obtain e prs h pm where "f = Failure e prs h pm"
      by auto
    with Pair Inl ok show ?thesis
      by (simp add: execute_sequential_chain_def)
  next
    case (Inr b)
    obtain cur rs where b: "b = (cur, rs)" by (cases b)
    from Pair Inr b
    have run: "run_steps template_error llm max_retries 0 chain_steps initial_input [] m
                 = (Inr (cur, rs), m')"
      by simp
    from run_steps_results[OF run] have c: "cur = (if rs = [] then initial_input else output_text (last rs))"
      by auto
    from run_steps_steps[OF mr run] have s: "map step rs = [1 ..< 1 + length chain_steps]"
      by simp
    have "length rs = length (map step rs)" by simp
    also have "\<dots> = length [1 ..< 1 + length chain_steps]" by (simp only: s)
    also have "\<dots> = length chain_steps" by (simp del: upt_Suc)
    finally have len: "length rs = length chain_steps" .
    have nth: "\<forall>i < length rs. step (rs ! i) = i + 1"
    proof (intro allI impI)
      fix i assume i: "i < length rs"
      then have "step (rs ! i) = map step rs ! i" by simp
      also have "\<dots> = [1 ..< 1 + length chain_steps] ! i" by (simp only: s)
      also have "\<dots> = i + 1" using i len by (simp del: upt_Suc)
      finally show "step (rs ! i) = i + 1" .
    qed
    show ?thesis
      using run c len nth by (simp add: execute_sequential_chain_def Let_def)
  qed
qed


theorem successful_chain_results_witness:
  "(0::int) \<le> 2
   \<and> success (fst (execute_sequential_chain unclosed_brace echo_llm 2
         [plain_step ''a {input}'', plain_step ''b {input}'', plain_step ''c {input}'']
         ''X'' new_manager))
   \<and> (\<exists>rs out.
         results (fst (execute_sequential_chain unclosed_brace echo_llm 2
           [plain_step ''a {input}'', plain_step ''b {input}'', plain_step ''c {input}'']
           ''X'' new_manager)) = Some rs
       \<and> final_output (fst (execute_sequential_chain unclosed_brace echo_llm 2
           [plain_step ''a {input}'', plain_step ''b {input}'', plain_step ''c {input}'']
           ''X'' new_manager)) = Some out
       \<and> length rs = 3
       \<and> (\<forall>i < length rs. step (rs ! i) = i + 1)
       \<and> out = (if rs = [] then ''X'' else output_text (last rs))
       \<and> map output_text rs = [''OUT:X'', ''OUT:OUT:X'', ''OUT:OUT:OUT:X'']
       \<and> map retry_count rs = [0, 0, 0]
       \<and> out = ''OUT:OUT:OUT:X'')"
  using successful_chain_results[where max_retries = 2 and template_error = unclosed_brace
      and llm = echo_llm
      and chain_steps = "[plain_step ''a {input}'', plain_step ''b {input}'',
                          plain_step ''c {input}'']"
      and initial_input = "''X''" and m = new_manager]
  by (simp add: run_eval)

text \<open>
  The bound matters: with a negative \<^verbatim>\<open>max_retries\<close> the condition of the \<^verbatim>\<open>while\<close> loop is
  false from the start, no step is run, and the run returns success with the results it
  started with.
\<close>

lemma negative_bound_runs_nothing:
  "max_retries < 0 \<Longrightarrow>
     run_steps template_error llm max_retries i chain_steps current_input rs m = (Inr (current_input, rs), m)"
  by (induction chain_steps arbitrary: i) (simp_all add: retry_loop.simps)

text \<open>
  Claim C2. When step \<open>k\<close> (counted from 1) fails on every attempt, the run returns a
  failure whose list of results holds exactly the \<open>k - 1\<close> entries of the steps completed
  before it, whose error message names step \<open>k\<close>, and no later step is attempted. The
  hypotheses say that the loop over the first \<open>k - 1\<close> steps runs to its end, and that
  each of the \<^verbatim>\<open>max_retries + 1\<close> attempts of step \<open>k\<close>, made one after the other from the
  state in which those steps end, raises. That the retries are then exhausted and the
  failure returned is proved, not assumed. The manager is left as it is after the last
  of these attempts, with one entry added to \<^verbatim>\<open>execution_log\<close>, and the attempts logged
  by the run are all of steps up to \<open>k\<close>.
\<close>

theorem exhausted_step_stops_chain:
  assumes k: "1 \<le> k" "k \<le> length chain_steps"
    and mr: "0 \<le> max_retries"
    and before: "run_steps template_error llm max_retries 0 (take (k - 1) chain_steps)
                   initial_input [] m
                   = (Inr (cur, completed), m1)"
    and fails: "\<forall>n \<le> nat max_retries.
                  isl (fst (attempt template_error llm (k - 1) (chain_steps ! (k - 1)) cur (int n)
                              (after_attempts template_error llm (k - 1) (chain_steps ! (k - 1))
                                 cur n m1)))"
  shows "\<not> success (fst (execute_sequential_chain template_error llm max_retries chain_steps
                           initial_input m))
       \<and> partial_results (fst (execute_sequential_chain template_error llm max_retries
                                  chain_steps initial_input m))
           = Some completed
       \<and> length completed = k - 1
       \<and> map step completed = [1 ..< k]
       \<and> error (fst (execute_sequential_chain template_error llm max_retries chain_steps
                        initial_input m))
           = Some (''Chain failed at step '' @ str_nat k @ '' after ''
                     @ str_int (max_retries + 1) @ '' attempts: ''
                     @ projl (fst (attempt template_error llm (k - 1) (chain_steps ! (k - 1))
                                     cur max_retries
                                     (after_attempts template_error llm (k - 1)
                                        (chain_steps ! (k - 1)) cur (nat max_retries) m1))))
       \<and> snd (execute_sequential_chain template_error llm max_retries chain_steps
                 initial_input m)
           = (after_attempts template_error llm (k - 1) (chain_steps ! (k - 1)) cur
                (Suc (nat max_retries)) m1)
             \<lparr>execution_log :=
                execution_log (after_attempts template_error llm (k - 1)
                                 (chain_steps ! (k - 1)) cur (Suc (nat max_retries)) m1)
                @ [LogFailed
                     (projl (fst (attempt template_error llm (k - 1) (chain_steps ! (k - 1))
                                    cur max_retries
                                    (after_attempts template_error llm (k - 1)
                                       (chain_steps ! (k - 1)) cur (nat max_retries) m1))))
                     k max_retries]\<rparr>
       \<and> (\<exists>h. chain_history (snd (execute_sequential_chain template_error llm max_retries
                                      chain_steps initial_input m)) = chain_history m @ h
              \<and> (\<forall>l \<in> set h. log_step l \<le> k))"
proof -
  from k obtain j where kj: "k = Suc j" by (cases k) auto
  let ?x = "chain_steps ! j"
  let ?msg = "projl (fst (attempt template_error llm j ?x cur max_retries
                            (after_attempts template_error llm j ?x cur (nat max_retries) m1)))"
  let ?m2 = "after_attempts template_error llm j ?x cur (Suc (nat max_retries)) m1"
  have j: "j < length chain_steps" using k kj by simp
  have before': "run_steps template_error llm max_retries 0 (take j chain_steps) initial_input [] m
                   = (Inr (cur, completed), m1)"
    using before kj by simp
  have fails': "\<forall>n \<le> nat max_retries.
                  isl (fst (attempt template_error llm j ?x cur (int n)
                              (after_attempts template_error llm j ?x cur n m1)))"
    using fails kj by simp
  have "retry_loop template_error llm max_retries j ?x cur (int 0)
          (after_attempts template_error llm j ?x cur 0 m1)
        = (Exhausted ?msg (max_retries + 1), ?m2)"
    by (rule retry_loop_all_fail[OF mr fails']) simp
  then have exhausted: "retry_loop template_error llm max_retries j ?x cur 0 m1
                          = (Exhausted ?msg (max_retries + 1), ?m2)"
    by simp
  have split: "chain_steps = take j chain_steps @ ?x # drop (Suc j) chain_steps"
    using j by (simp add: id_take_nth_drop)
  have len: "length (take j chain_steps) = j"
    using j by simp
  have "run_steps template_error llm max_retries 0
            (take j chain_steps @ ?x # drop (Suc j) chain_steps) initial_input [] m
          = run_steps template_error llm max_retries j (?x # drop (Suc j) chain_steps)
              cur completed m1"
    by (simp only: run_steps_append before' prod.case sum.case len add_0)
  with split have whole: "run_steps template_error llm max_retries 0 chain_steps initial_input [] m
          = run_steps template_error llm max_retries j (?x # drop (Suc j) chain_steps)
              cur completed m1"
    by simp
  have tail: "run_steps template_error llm max_retries j (?x # drop (Suc j) chain_steps)
                cur completed m1
          = (Inl (Failure (''Chain failed at step '' @ str_nat (j + 1) @ '' after ''
                             @ str_int (max_retries + 1) @ '' attempts: '' @ ?msg)
                          completed (chain_history ?m2) (get_summary ?m2)),
             ?m2\<lparr>execution_log := execution_log ?m2
                     @ [LogFailed ?msg (j + 1) (max_retries + 1 - 1)]\<rparr>)"
    by (simp only: run_steps.simps exhausted prod.case step_outcome.case)
  have run: "execute_sequential_chain template_error llm max_retries chain_steps initial_input m
          = (Failure (''Chain failed at step '' @ str_nat (j + 1) @ '' after ''
                        @ str_int (max_retries + 1) @ '' attempts: '' @ ?msg)
                     completed (chain_history ?m2) (get_summary ?m2),
             ?m2\<lparr>execution_log := execution_log ?m2
                     @ [LogFailed ?msg (j + 1) (max_retries + 1 - 1)]\<rparr>)"
    by (simp only: execute_sequential_chain_def whole tail prod.case sum.case)
  have steps: "map step completed = [1 ..< Suc j]"
    using run_steps_steps[OF mr before', unfolded len] by (simp del: upt_Suc)
  have "length completed = length (map step completed)" by simp
  also have "\<dots> = length [1 ..< Suc j]" by (simp only: steps)
  also have "\<dots> = j" by (simp del: upt_Suc)
  finally have lc: "length completed = j" .
  from run_steps_history[OF before', unfolded len] obtain h1 where
    h1: "chain_history m1 = chain_history m @ h1" "\<forall>l \<in> set h1. log_step l \<le> j"
    by auto
  from retry_loop_history[OF exhausted] obtain h2 where
    h2: "chain_history ?m2 = chain_history m1 @ h2" "\<forall>l \<in> set h2. log_step l = j + 1"
    by auto
  have hist: "\<exists>h. chain_history ?m2 = chain_history m @ h \<and> (\<forall>l \<in> set h. log_step l \<le> Suc j)"
    using h1 h2 by (intro exI[of _ "h1 @ h2"]) auto
  have a: "\<not> success (fst (execute_sequential_chain template_error llm max_retries chain_steps
                             initial_input m))"
    by (simp only: run fst_conv success.simps) simp
  have b: "partial_results (fst (execute_sequential_chain template_error llm max_retries
                                   chain_steps initial_input m))
           = Some completed"
    by (simp only: run fst_conv partial_results.simps)
  have c: "error (fst (execute_sequential_chain template_error llm max_retries chain_steps
                         initial_input m))
           = Some (''Chain failed at step '' @ str_nat (j + 1) @ '' after ''
                     @ str_int (max_retries + 1) @ '' attempts: '' @ ?msg)"
    by (simp only: run fst_conv error.simps)
  have d: "snd (execute_sequential_chain template_error llm max_retries chain_steps
                  initial_input m)
           = ?m2\<lparr>execution_log := execution_log ?m2 @ [LogFailed ?msg (j + 1) max_retries]\<rparr>"
    by (simp only: run snd_conv) simp
  have e: "chain_history (snd (execute_sequential_chain template_error llm max_retries
                                 chain_steps initial_input m)) = chain_history ?m2"
    by (simp only: d) simp
  have f: "length completed = k - 1" using lc kj by simp
  have g: "map step completed = [1 ..< k]" using steps kj by simp
  have kj': "k - 1 = j" "j + 1 = k" using kj by simp_all
  show ?thesis
    unfolding kj'(1)
    using a b c[unfolded kj'(2)] d[unfolded kj'(2)] f[unfolded kj'(1)] g
      hist[folded e, unfolded kj[symmetric]]
    by blast
qed

theorem exhausted_step_stops_chain_witness:
  "(1::nat) \<le> 2
   \<and> 2 \<le> length [plain_step ''a {input}'',
                    checked_step ''b {input}'' [(''never'', always_false)]]
   \<and> (0::int) \<le> 2
   \<and> run_steps unclosed_brace flaky_llm 2 0
         (take (2 - 1) [plain_step ''a {input}'',
                        checked_step ''b {input}'' [(''never'', always_false)]])
         ''X'' [] new_manager
       = (Inr (''OUT:X'',
               [\<lparr>step = 1, output_text = ''OUT:X'', validation_results = [],
                  retry_count = 1, output_length = 5\<rparr>]),
          \<lparr>chain_history =
              [\<lparr>log_step = 1, log_template = ''a {input}'', input_preview = ''X'',
                 retry_attempt = 0\<rparr>,
               \<lparr>log_step = 1, log_template = ''a {input}'', input_preview = ''X'',
                 retry_attempt = 1\<rparr>],
            execution_log = [], step_timings = [1],
            calls = [Invoked ''a {input}'' [(''input'', ''X'')],
                     Invoked ''a {input}'' [(''input'', ''X'')]]\<rparr>)
   \<and> fst (attempt unclosed_brace flaky_llm 1
            (checked_step ''b {input}'' [(''never'', always_false)]) ''OUT:X'' 0
            \<lparr>chain_history =
               [\<lparr>log_step = 1, log_template = ''a {input}'', input_preview = ''X'',
                  retry_attempt = 0\<rparr>,
                \<lparr>log_step = 1, log_template = ''a {input}'', input_preview = ''X'',
                  retry_attempt = 1\<rparr>],
             execution_log = [], step_timings = [1],
             calls = [Invoked ''a {input}'' [(''input'', ''X'')],
                      Invoked ''a {input}'' [(''input'', ''X'')]]\<rparr>)
       = Inl ''Step 2 failed never validation''
   \<and> \<not> success (fst (execute_sequential_chain unclosed_brace flaky_llm 2
           [plain_step ''a {input}'', checked_step ''b {input}'' [(''never'', always_false)]]
           ''X'' new_manager))
   \<and> partial_results (fst (execute_sequential_chain unclosed_brace flaky_llm 2
           [plain_step ''a {input}'', checked_step ''b {input}'' [(''never'', always_false)]]
           ''X'' new_manager))
       = Some [\<lparr>step = 1, output_text = ''OUT:X'', validation_results = [],
                 retry_count = 1, output_length = 5\<rparr>]
   \<and> error (fst (execute_sequential_chain unclosed_brace flaky_llm 2
           [plain_step ''a {input}'', checked_step ''b {input}'' [(''never'', always_false)]]
           ''X'' new_manager))
       = Some ''Chain failed at step 2 after 3 attempts: Step 2 failed never validation''
   \<and> map log_step (chain_history (snd (execute_sequential_chain unclosed_brace flaky_llm 2
           [plain_step ''a {input}'', checked_step ''b {input}'' [(''never'', always_false)]]
           ''X'' new_manager))) = [1, 1, 2, 2, 2]"
proof -
  have every_attempt_fails:
    "isl (fst (attempt unclosed_brace flaky_llm i
                 (checked_step ''b {input}'' [(''never'', always_false)]) cur rc m))"
    for i cur rc m
    by (simp add: attempt_def validate_def unclosed_brace_def flaky_llm_def checked_step_def
                  always_false_def Let_def)
  show ?thesis
    using exhausted_step_stops_chain[where k = 2 and template_error = unclosed_brace
        and llm = flaky_llm and max_retries = 2
        and chain_steps = "[plain_step ''a {input}'',
                            checked_step ''b {input}'' [(''never'', always_false)]]"
        and initial_input = "''X''" and m = new_manager and cur = "''OUT:X''"
        and completed = "[\<lparr>step = 1, output_text = ''OUT:X'', validation_results = [],
                           retry_count = 1, output_length = 5\<rparr>]"
        and ?m1.0 = "\<lparr>chain_history =
                [\<lparr>log_step = 1, log_template = ''a {input}'', input_preview = ''X'',
                   retry_attempt = 0\<rparr>,
                 \<lparr>log_step = 1, log_template = ''a {input}'', input_preview = ''X'',
                   retry_attempt = 1\<rparr>],
              execution_log = [], step_timings = [1],
              calls = [Invoked ''a {input}'' [(''input'', ''X'')],
                       Invoked ''a {input}'' [(''input'', ''X'')]]\<rparr>"]
      every_attempt_fails
    by (simp add: run_eval str_eval eval_nat_numeral)
qed

text \<open>
  Claim C4, as amended. The claim reads: every attempt of a step with several named
  validators runs every supplied validator on the raw output. The loop raises at the
  first validator that does not pass, so the validators after it are not run in that
  attempt. What holds: an attempt runs the
  validators in order on the raw output, up to and including the first one that returns
  false or raises; when all pass, every validator has run once and the recorded
  validation results hold one pair (name, true) per validator; the attempt fails when
  the generation call raises (no validator runs then) or when some validator does not
  pass. When the prompt cannot be built from the template the attempt fails before the
  callable is reached, and nothing is called.
\<close>

theorem validators_run_until_first_failure:
  assumes vs: "validators s = Some vs"
  shows "case template_error (template s) [(''input'', current_input)] of
           Some e \<Rightarrow>
             fst (attempt template_error llm i s current_input rc m) = Inl e
             \<and> calls (snd (attempt template_error llm i s current_input rc m)) = calls m
         | None \<Rightarrow>
            (case llm (calls m) (template s) [(''input'', current_input)] of
               Inl e \<Rightarrow>
                 fst (attempt template_error llm i s current_input rc m) = Inl e
                 \<and> calls (snd (attempt template_error llm i s current_input rc m))
                     = calls m @ [Invoked (template s) [(''input'', current_input)]]
             | Inr out \<Rightarrow>
                 if \<forall>nv \<in> set vs. passes out nv
                 then (\<exists>r. fst (attempt template_error llm i s current_input rc m) = Inr r
                           \<and> output_text r = out
                           \<and> validation_results r = map (\<lambda>nv. (fst nv, True)) vs)
                      \<and> calls (snd (attempt template_error llm i s current_input rc m))
                          = calls m @ Invoked (template s) [(''input'', current_input)]
                              # map (\<lambda>nv. Validated (fst nv) out) vs
                 else (\<exists>e. fst (attempt template_error llm i s current_input rc m) = Inl e)
                      \<and> calls (snd (attempt template_error llm i s current_input rc m))
                          = calls m @ Invoked (template s) [(''input'', current_input)]
                              # map (\<lambda>nv. Validated (fst nv) out)
                                  (takeWhile (passes out) vs
                                   @ take 1 (dropWhile (passes out) vs)))"
proof (cases "template_error (template s) [(''input'', current_input)]")
  case (Some e)
  then show ?thesis by (simp add: attempt_def Let_def)
next
  case None
  show ?thesis
  proof (cases "llm (calls m) (template s) [(''input'', current_input)]")
    case (Inl e)
    with None show ?thesis by (simp add: attempt_def Let_def)
  next
    case (Inr out)
    let ?tr = "calls m @ [Invoked (template s) [(''input'', current_input)]]"
    have v: "validate (i + 1) s out ?tr = run_validators (i + 1) vs out [] ?tr"
      using vs by (simp add: validate_def)
    show ?thesis
    proof (cases "\<forall>nv \<in> set vs. passes out nv")
      case True
      from run_validators_all_pass[OF True, of "i + 1" "[]" ?tr] v
      have "validate (i + 1) s out ?tr
              = (Inr (map (\<lambda>nv. (fst nv, True)) vs),
                 ?tr @ map (\<lambda>nv. Validated (fst nv) out) vs)"
        by simp
      with None Inr True show ?thesis by (simp add: attempt_def Let_def)
    next
      case False
      from run_validators_first_failure[OF False, of "i + 1" "[]" ?tr] v
      obtain e where "validate (i + 1) s out ?tr
              = (Inl e, ?tr @ map (\<lambda>nv. Validated (fst nv) out)
                          (takeWhile (passes out) vs @ take 1 (dropWhile (passes out) vs)))"
        by auto
      with None Inr False show ?thesis by (simp add: attempt_def Let_def)
    qed
  qed
qed

theorem validators_run_until_first_failure_witness:
  "validators (checked_step ''t {input}''
       [(''first'', always_true), (''second'', always_false), (''third'', always_true)])
     = Some [(''first'', always_true), (''second'', always_false), (''third'', always_true)]
   \<and> fst (attempt unclosed_brace echo_llm 0 (checked_step ''t {input}''
             [(''first'', always_true), (''second'', always_false), (''third'', always_true)])
           ''X'' 0 new_manager) = Inl ''Step 1 failed second validation''
   \<and> calls (snd (attempt unclosed_brace echo_llm 0 (checked_step ''t {input}''
             [(''first'', always_true), (''second'', always_false), (''third'', always_true)])
           ''X'' 0 new_manager))
       = [Invoked ''t {input}'' [(''input'', ''X'')],
          Validated ''first'' ''OUT:X'', Validated ''second'' ''OUT:X'']
   \<and> validators (checked_step ''t {input}'' [(''first'', always_true), (''third'', always_true)])
       = Some [(''first'', always_true), (''third'', always_true)]
   \<and> (\<exists>r. fst (attempt unclosed_brace echo_llm 0 (checked_step ''t {input}''
                  [(''first'', always_true), (''third'', always_true)]) ''X'' 0 new_manager) = Inr r
          \<and> output_text r = ''OUT:X''
          \<and> validation_results r = [(''first'', True), (''third'', True)])
   \<and> calls (snd (attempt unclosed_brace echo_llm 0 (checked_step ''t {input}''
             [(''first'', always_true), (''third'', always_true)]) ''X'' 0 new_manager))
       = [Invoked ''t {input}'' [(''input'', ''X'')],
          Validated ''first'' ''OUT:X'', Validated ''third'' ''OUT:X'']"
  using validators_run_until_first_failure[where s = "checked_step ''t {input}''
            [(''first'', always_true), (''second'', always_false), (''third'', always_true)]"
          and vs = "[(''first'', always_true), (''second'', always_false), (''third'', always_true)]"
          and template_error = unclosed_brace and llm = echo_llm and m = new_manager
          and current_input = "''X''" and i = 0 and rc = 0]
        validators_run_until_first_failure[where s = "checked_step ''t {input}''
            [(''first'', always_true), (''third'', always_true)]"
          and vs = "[(''first'', always_true), (''third'', always_true)]"
          and template_error = unclosed_brace and llm = echo_llm and m = new_manager
          and current_input = "''X''" and i = 0 and rc = 0]
  by (simp add: run_eval str_eval passes_def)

text \<open>
  The claim as it reads, refuted: the step carries the validators \<^verbatim>\<open>first\<close>, which
  returns false, and \<^verbatim>\<open>second\<close>; the generation call returns \<^verbatim>\<open>OUT:X\<close>; the attempt
  calls \<^verbatim>\<open>first\<close> and never \<^verbatim>\<open>second\<close>.
\<close>

theorem every_validator_runs_counterexample:
  "validators (checked_step ''t {input}'' [(''first'', always_false), (''second'', always_true)])
     = Some [(''first'', always_false), (''second'', always_true)]
   \<and> unclosed_brace ''t {input}'' [(''input'', ''X'')] = None
   \<and> echo_llm (calls new_manager) ''t {input}'' [(''input'', ''X'')] = Inr ''OUT:X''
   \<and> calls (snd (attempt unclosed_brace echo_llm 0
         (checked_step ''t {input}'' [(''first'', always_false), (''second'', always_true)])
         ''X'' 0 new_manager))
       = [Invoked ''t {input}'' [(''input'', ''X'')], Validated ''first'' ''OUT:X'']
   \<and> Validated ''second'' ''OUT:X''
       \<notin> set (calls (snd (attempt unclosed_brace echo_llm 0
         (checked_step ''t {input}'' [(''first'', always_false), (''second'', always_true)])
         ''X'' 0 new_manager)))"
  by (simp add: run_eval str_eval)

text \<open>
  Claim C3, as amended. The claim reads: the \<^verbatim>\<open>retry_count\<close> recorded for a completed step
  never exceeds \<^verbatim>\<open>max_retries\<close>, and a step that fails for good has invoked the
  text-generation callable exactly \<^verbatim>\<open>max_retries + 1\<close> times. The first half holds. The
  second fails for a step whose prompt cannot be built: the exception is raised inside
  the \<^verbatim>\<open>try\<close> block before the callable is reached, every attempt is retried all the
  same, and the callable is never invoked. What holds: a step that fails for good has
  been attempted exactly \<^verbatim>\<open>max_retries + 1\<close> times (one entry of \<^verbatim>\<open>chain_history\<close> each), and
  each attempt invokes the callable once when the prompt is built and not at all
  otherwise; so the failing step invokes it \<^verbatim>\<open>max_retries + 1\<close> times when its prompt is
  built and never when it is not. The first conjunct is the retry loop of one step,
  counted from the state in which the step starts; the second is the whole run, where
  the failing step is the one after the recorded results and its input is the last
  recorded output.
\<close>

theorem retry_count_bounded_and_attempts_counted:
  "(case retry_loop template_error llm max_retries i s current_input 0 m of
      (Completed r, m') \<Rightarrow>
         0 \<le> retry_count r \<and> retry_count r \<le> max_retries
         \<and> int (length (chain_history m'))
              = int (length (chain_history m)) + (retry_count r + 1)
         \<and> int (invocations (calls m')) = int (invocations (calls m)) + (retry_count r + 1)
    | (Exhausted e rc, m') \<Rightarrow>
         int (length (chain_history m')) = int (length (chain_history m)) + (max_retries + 1)
         \<and> int (invocations (calls m'))
              = int (invocations (calls m))
                + (max_retries + 1) * int (calls_per_attempt template_error s current_input)
    | (NotRun, m') \<Rightarrow> max_retries < 0 \<and> m' = m)
   \<and> (case execute_sequential_chain template_error llm max_retries chain_steps initial_input m of
        (Success rs out h pm lg, m') \<Rightarrow>
           (\<forall>r \<in> set rs. 0 \<le> retry_count r \<and> retry_count r \<le> max_retries)
           \<and> int (length (chain_history m'))
                = int (length (chain_history m)) + (\<Sum>r\<leftarrow>rs. retry_count r + 1)
           \<and> int (invocations (calls m'))
                = int (invocations (calls m)) + (\<Sum>r\<leftarrow>rs. retry_count r + 1)
      | (Failure e rs h pm, m') \<Rightarrow>
           (\<forall>r \<in> set rs. 0 \<le> retry_count r \<and> retry_count r \<le> max_retries)
           \<and> int (length (chain_history m'))
                = int (length (chain_history m)) + (\<Sum>r\<leftarrow>rs. retry_count r + 1)
                  + (max_retries + 1)
           \<and> int (invocations (calls m'))
                = int (invocations (calls m)) + (\<Sum>r\<leftarrow>rs. retry_count r + 1)
                  + (max_retries + 1)
                    * int (calls_per_attempt template_error (chain_steps ! length rs)
                             (if rs = [] then initial_input else output_text (last rs))))"
proof
  show "case retry_loop template_error llm max_retries i s current_input 0 m of
      (Completed r, m') \<Rightarrow>
         0 \<le> retry_count r \<and> retry_count r \<le> max_retries
         \<and> int (length (chain_history m'))
              = int (length (chain_history m)) + (retry_count r + 1)
         \<and> int (invocations (calls m')) = int (invocations (calls m)) + (retry_count r + 1)
    | (Exhausted e rc, m') \<Rightarrow>
         int (length (chain_history m')) = int (length (chain_history m)) + (max_retries + 1)
         \<and> int (invocations (calls m'))
              = int (invocations (calls m))
                + (max_retries + 1) * int (calls_per_attempt template_error s current_input)
    | (NotRun, m') \<Rightarrow> max_retries < 0 \<and> m' = m"
  proof (cases "retry_loop template_error llm max_retries i s current_input 0 m")
    case (Pair o1 m1)
    show ?thesis
    proof (cases o1)
      case (Completed r)
      with Pair retry_loop_completed[of template_error llm max_retries i s current_input 0 m r m1]
      show ?thesis by simp
    next
      case (Exhausted e rc)
      with Pair retry_loop_exhausted[of template_error llm max_retries i s current_input 0 m e rc m1]
      show ?thesis by simp
    next
      case NotRun
      with Pair retry_loop_not_run[of template_error llm max_retries i s current_input 0 m m1]
      show ?thesis by simp
    qed
  qed
next
  show "case execute_sequential_chain template_error llm max_retries chain_steps initial_input m of
        (Success rs out h pm lg, m') \<Rightarrow>
           (\<forall>r \<in> set rs. 0 \<le> retry_count r \<and> retry_count r \<le> max_retries)
           \<and> int (length (chain_history m'))
                = int (length (chain_history m)) + (\<Sum>r\<leftarrow>rs. retry_count r + 1)
           \<and> int (invocations (calls m'))
                = int (invocations (calls m)) + (\<Sum>r\<leftarrow>rs. retry_count r + 1)
      | (Failure e rs h pm, m') \<Rightarrow>
           (\<forall>r \<in> set rs. 0 \<le> retry_count r \<and> retry_count r \<le> max_retries)
           \<and> int (length (chain_history m'))
                = int (length (chain_history m)) + (\<Sum>r\<leftarrow>rs. retry_count r + 1)
                  + (max_retries + 1)
           \<and> int (invocations (calls m'))
                = int (invocations (calls m)) + (\<Sum>r\<leftarrow>rs. retry_count r + 1)
                  + (max_retries + 1)
                    * int (calls_per_attempt template_error (chain_steps ! length rs)
                             (if rs = [] then initial_input else output_text (last rs)))"
  proof (cases "run_steps template_error llm max_retries 0 chain_steps initial_input [] m")
    case (Pair a m1)
    show ?thesis
    proof (cases a)
      case (Inl f)
      from run_steps_failed[of template_error llm max_retries 0 chain_steps initial_input "[]" m f m1]
        Pair Inl
      obtain k e new where
        f: "f = Failure (''Chain failed at step '' @ str_nat (0 + k + 1) @ '' after ''
                        @ str_int (max_retries + 1) @ '' attempts: '' @ e)
                     ([] @ new) (chain_history m1) (get_summary m1)"
        and k: "length new = k"
        and b: "\<forall>r \<in> set new. 0 \<le> retry_count r \<and> retry_count r \<le> max_retries"
        and c: "int (invocations (calls m1))
            = int (invocations (calls m)) + (\<Sum>r\<leftarrow>new. retry_count r + 1)
              + (max_retries + 1) * int (calls_per_attempt template_error (chain_steps ! k)
                                 (if new = [] then initial_input else output_text (last new)))"
        and d: "int (length (chain_history m1))
            = int (length (chain_history m)) + (\<Sum>r\<leftarrow>new. retry_count r + 1)
              + (max_retries + 1)"
        by blast
      from Pair Inl
      have "execute_sequential_chain template_error llm max_retries chain_steps initial_input m
              = (f, m1)"
        by (simp add: execute_sequential_chain_def)
      with f b c d k show ?thesis by simp
    next
      case (Inr p)
      obtain cur rs where p: "p = (cur, rs)" by (cases p)
      with Pair Inr
      have run: "run_steps template_error llm max_retries 0 chain_steps initial_input [] m
                   = (Inr (cur, rs), m1)"
        by simp
      from run_steps_results[OF run] have
        b: "\<forall>r \<in> set rs. 0 \<le> retry_count r \<and> retry_count r \<le> max_retries"
        and c: "int (invocations (calls m1))
            = int (invocations (calls m)) + (\<Sum>r\<leftarrow>rs. retry_count r + 1)"
        and d: "int (length (chain_history m1))
            = int (length (chain_history m)) + (\<Sum>r\<leftarrow>rs. retry_count r + 1)"
        by auto
      from run b c d show ?thesis
        by (simp add: execute_sequential_chain_def Let_def)
    qed
  qed
qed

theorem retry_count_bounded_and_attempts_counted_witness:
  "retry_loop unclosed_brace echo_llm 2 0
       (checked_step ''a {input}'' [(''never'', always_false)]) ''X'' 0 new_manager
     = (Exhausted ''Step 1 failed never validation'' 3,
        snd (retry_loop unclosed_brace echo_llm 2 0
               (checked_step ''a {input}'' [(''never'', always_false)]) ''X'' 0 new_manager))
   \<and> calls_per_attempt unclosed_brace
         (checked_step ''a {input}'' [(''never'', always_false)]) ''X'' = 1
   \<and> invocations (calls (snd (retry_loop unclosed_brace echo_llm 2 0
         (checked_step ''a {input}'' [(''never'', always_false)]) ''X'' 0 new_manager))) = 3
   \<and> length (chain_history (snd (retry_loop unclosed_brace echo_llm 2 0
         (checked_step ''a {input}'' [(''never'', always_false)]) ''X'' 0 new_manager))) = 3
   \<and> partial_results (fst (execute_sequential_chain unclosed_brace flaky_llm 2
         [plain_step ''a {input}'', checked_step ''b {input}'' [(''never'', always_false)]]
         ''X'' new_manager))
       = Some [\<lparr>step = 1, output_text = ''OUT:X'', validation_results = [],
                 retry_count = 1, output_length = 5\<rparr>]
   \<and> invocations (calls (snd (execute_sequential_chain unclosed_brace flaky_llm 2
         [plain_step ''a {input}'', checked_step ''b {input}'' [(''never'', always_false)]]
         ''X'' new_manager))) = 5
   \<and> length (chain_history (snd (execute_sequential_chain unclosed_brace flaky_llm 2
         [plain_step ''a {input}'', checked_step ''b {input}'' [(''never'', always_false)]]
         ''X'' new_manager))) = 5"
  using retry_count_bounded_and_attempts_counted[where template_error = unclosed_brace
          and llm = echo_llm and max_retries = 2
          and i = 0 and s = "checked_step ''a {input}'' [(''never'', always_false)]"
          and current_input = "''X''" and m = new_manager
          and chain_steps = "[]" and initial_input = "''X''"]
        retry_count_bounded_and_attempts_counted[where template_error = unclosed_brace
          and llm = flaky_llm and max_retries = 2
          and i = 0 and s = "checked_step ''a {input}'' [(''never'', always_false)]"
          and current_input = "''X''" and m = new_manager
          and chain_steps = "[plain_step ''a {input}'',
                              checked_step ''b {input}'' [(''never'', always_false)]]"
          and initial_input = "''X''"]
  by (simp add: run_eval str_eval)

text \<open>
  The claim as it reads, refuted: one step whose template \<^verbatim>\<open>a {input\<close> has a brace that is
  never closed, \<^verbatim>\<open>max_retries = 2\<close>. Building the prompt raises at each of the three
  attempts, the run fails at step 1, and the callable has been invoked 0 times, not 3.
\<close>

theorem failing_step_invocations_counterexample:
  "fst (retry_loop unclosed_brace echo_llm 2 0 (plain_step ''a {input'') ''X'' 0 new_manager)
     = Exhausted (''expected '' @ [CHR 0x27, CHR ''}'', CHR 0x27] @ '' before end of string'') 3
   \<and> \<not> success (fst (execute_sequential_chain unclosed_brace echo_llm 2
                        [plain_step ''a {input''] ''X'' new_manager))
   \<and> map retry_attempt (chain_history (snd (execute_sequential_chain unclosed_brace echo_llm 2
                        [plain_step ''a {input''] ''X'' new_manager))) = [0, 1, 2]
   \<and> invocations (calls (snd (execute_sequential_chain unclosed_brace echo_llm 2
                        [plain_step ''a {input''] ''X'' new_manager))) = 0
   \<and> invocations (calls (snd (execute_sequential_chain unclosed_brace echo_llm 2
                        [plain_step ''a {input''] ''X'' new_manager))) \<noteq> nat (2 + 1)"
  by (simp add: run_eval str_eval)

text \<open>
  Claim C9. For every initial input string, calling \<^verbatim>\<open>execute_sequential_chain\<close> with an
  empty step list returns a success outcome whose results list is empty and whose final
  output is the initial input unchanged. It holds for every retry bound and every state
  of the manager; no call is made.
\<close>

theorem empty_chain_returns_input:
  "success (fst (execute_sequential_chain template_error llm max_retries [] initial_input m))
   \<and> results (fst (execute_sequential_chain template_error llm max_retries [] initial_input m))
       = Some []
   \<and> final_output (fst (execute_sequential_chain template_error llm max_retries [] initial_input
                          m))
       = Some initial_input
   \<and> calls (snd (execute_sequential_chain template_error llm max_retries [] initial_input m))
       = calls m"
  by (simp add: execute_sequential_chain_def Let_def)

section \<open>Properties of the parallel run\<close>

text \<open>
  Claim C5. The claim reads: for every input, an empty task mapping included, the public
  run methods never raise; every failure is returned inside the outcome. With an empty
  mapping \<^verbatim>\<open>execute_parallel_chains\<close> computes \<^verbatim>\<open>max_workers = min(0, 4) = 0\<close> and the
  constructor of the thread pool raises \<^verbatim>\<open>ValueError\<close> outside every \<^verbatim>\<open>try\<close> block: the
  exception leaves the method, whatever the callable, the document and the synthesis
  template are.
\<close>

theorem empty_mapping_raises:
  "fst (execute_parallel_chains llm [] document synthesis_template m)
     = Inl ''max_workers must be greater than 0''"
  by (simp add: execute_parallel_chains_def)

text \<open>
  Claim C6. In a parallel run in which no task succeeds, no synthesis call is made and
  the \<^verbatim>\<open>synthesis\<close> field is \<^verbatim>\<open>None\<close>; the run returns. A run has at least one task.
  \<^verbatim>\<open>successful_count\<close> is zero exactly when every entry of \<^verbatim>\<open>execution_details\<close> is a
  failed one, and then the calls made by the run are the one call of each task, on
  \<^verbatim>\<open>{"document": document}\<close>, and nothing else, whatever synthesis template was supplied.
\<close>

theorem no_synthesis_without_success:
  assumes ne: "prompt_templates \<noteq> []"
  shows "\<exists>out. fst (execute_parallel_chains llm prompt_templates document synthesis_template m)
               = Inr out
           \<and> (successful_count out = 0
                \<longleftrightarrow> (\<forall>r \<in> set (execution_details out). \<not> task_success r))
           \<and> (successful_count out = 0 \<longrightarrow>
                synthesis out = None
                \<and> calls (snd (execute_parallel_chains llm prompt_templates document
                                 synthesis_template m))
                    = calls m @ map (task_call document) prompt_templates)"
proof -
  let ?details = "fst (run_tasks llm document prompt_templates (calls m))"
  let ?succ = "dict_of (map (\<lambda>r. (name r, result r)) (filter task_success ?details))"
  have iff: "?succ = [] \<longleftrightarrow> (\<forall>r \<in> set ?details. \<not> task_success r)"
    by (simp add: dict_of_Nil_iff filter_empty_conv)
  have syn: "?succ = [] \<Longrightarrow>
      synthesize llm document synthesis_template ?succ
        (calls m @ map (task_call document) prompt_templates)
      = (None, calls m @ map (task_call document) prompt_templates)"
    by (simp only: synthesize_nothing)
  show ?thesis
    using iff syn by (simp add: execute_parallel_nonempty[OF ne])
qed

theorem no_synthesis_without_success_witness:
  "[(''a'', ''sum {document}''), (''b'', ''risk {document}'')] \<noteq> []
   \<and> (\<exists>out. fst (execute_parallel_chains failing_llm
                    [(''a'', ''sum {document}''), (''b'', ''risk {document}'')] ''D''
                    (Some ''combine {analysis_results}'') new_manager) = Inr out
           \<and> successful_count out = 0
           \<and> synthesis out = None)
   \<and> calls (snd (execute_parallel_chains failing_llm
                    [(''a'', ''sum {document}''), (''b'', ''risk {document}'')] ''D''
                    (Some ''combine {analysis_results}'') new_manager))
       = [Invoked ''sum {document}'' [(''document'', ''D'')],
          Invoked ''risk {document}'' [(''document'', ''D'')]]"
  using no_synthesis_without_success[where llm = failing_llm
      and prompt_templates = "[(''a'', ''sum {document}''), (''b'', ''risk {document}'')]"
      and document = "''D''" and synthesis_template = "Some ''combine {analysis_results}''"
      and m = new_manager]
  by (simp add: parallel_eval)

text \<open>
  Claim C7. The keys of the returned \<^verbatim>\<open>parallel_results\<close> are exactly the task names that
  were supplied, whether the tasks succeeded or failed, and
  \<^verbatim>\<open>successful_count + failed_count\<close> is the number of submitted tasks. The method returns
  an outcome for every mapping with at least one task, and for these only.
\<close>

theorem parallel_keys_and_counts:
  "case fst (execute_parallel_chains llm prompt_templates document synthesis_template m) of
     Inl e \<Rightarrow> prompt_templates = []
   | Inr out \<Rightarrow>
       prompt_templates \<noteq> []
       \<and> set (map fst (parallel_results out)) = set (map fst prompt_templates)
       \<and> successful_count out + failed_count out = int (length prompt_templates)"
proof (cases "prompt_templates = []")
  case True
  then show ?thesis by (simp add: execute_parallel_chains_def)
next
  case False
  have "fst ` set (dict_of (map (\<lambda>r. (name r, result r))
                    (fst (run_tasks llm document prompt_templates (calls m)))))
        = set (map name (fst (run_tasks llm document prompt_templates (calls m))))"
    by (simp add: dict_of_keys image_image)
  also have "\<dots> = fst ` set prompt_templates"
    by (simp only: run_tasks_names) simp
  finally show ?thesis
    using False
    by (simp add: execute_parallel_nonempty[OF False] run_tasks_length)
qed

theorem parallel_keys_and_counts_witness:
  "case fst (execute_parallel_chains picky_llm
               [(''a'', ''sum {document}''), (''b'', ''fail {document}'')] ''D'' None new_manager) of
     Inl e \<Rightarrow> False
   | Inr out \<Rightarrow>
       set (map fst (parallel_results out)) = {''a'', ''b''}
       \<and> successful_count out = 1 \<and> failed_count out = 1
       \<and> successful_count out + failed_count out = 2"
  using parallel_keys_and_counts[where llm = picky_llm
      and prompt_templates = "[(''a'', ''sum {document}''), (''b'', ''fail {document}'')]"
      and document = "''D''" and synthesis_template = None and m = new_manager]
  by (simp add: parallel_eval)

text \<open>
  Claim C8. A task whose generation call raises is caught in that task and recorded as a
  failed entry whose \<^verbatim>\<open>result\<close> is \<^verbatim>\<open>Error: \<close> followed by the message; the other tasks
  are not affected. Every task has its entry, at its position of submission and under
  its own name, and the entry is decided by the answer to that task's own call alone
  (the call is made whatever happened to the tasks before it). The names are the keys
  of a dictionary, hence distinct.
\<close>

theorem task_failure_is_isolated:
  assumes ne: "prompt_templates \<noteq> []"
    and dist: "distinct (map fst prompt_templates)"
  shows "\<exists>out. fst (execute_parallel_chains llm prompt_templates document synthesis_template m)
               = Inr out
           \<and> length (execution_details out) = length prompt_templates
           \<and> (\<forall>j < length prompt_templates.
                 name (execution_details out ! j) = fst (prompt_templates ! j)
               \<and> map_of (parallel_results out) (fst (prompt_templates ! j))
                   = Some (result (execution_details out ! j))
               \<and> (case llm (calls m @ map (task_call document) (take j prompt_templates))
                            (snd (prompt_templates ! j)) [(''document'', document)] of
                     Inl e \<Rightarrow>
                       \<not> task_success (execution_details out ! j)
                       \<and> result (execution_details out ! j) = ''Error: '' @ e
                       \<and> task_error (execution_details out ! j) = Some e
                   | Inr res \<Rightarrow>
                       task_success (execution_details out ! j)
                       \<and> result (execution_details out ! j) = res
                       \<and> task_error (execution_details out ! j) = None))"
proof -
  let ?details = "fst (run_tasks llm document prompt_templates (calls m))"
  let ?pairs = "map (\<lambda>r. (name r, result r)) ?details"
  have len: "length ?details = length prompt_templates"
    by (rule run_tasks_length)
  have keys: "map fst ?pairs = map fst prompt_templates"
    using run_tasks_names[of llm document prompt_templates "calls m"] by (simp add: comp_def)
  then have dp: "distinct (map fst ?pairs)" using dist by simp
  then have dict: "dict_of ?pairs = ?pairs" by (rule dict_of_distinct)
  have each: "name (?details ! j) = fst (prompt_templates ! j)
       \<and> map_of ?pairs (fst (prompt_templates ! j)) = Some (result (?details ! j))
       \<and> (case llm (calls m @ map (task_call document) (take j prompt_templates))
                    (snd (prompt_templates ! j)) [(''document'', document)] of
             Inl e \<Rightarrow>
               \<not> task_success (?details ! j)
               \<and> result (?details ! j) = ''Error: '' @ e
               \<and> task_error (?details ! j) = Some e
           | Inr res \<Rightarrow>
               task_success (?details ! j)
               \<and> result (?details ! j) = res
               \<and> task_error (?details ! j) = None)"
    if j: "j < length prompt_templates" for j
  proof -
    have nth: "?details ! j
        = fst (run_single_prompt llm document (fst (prompt_templates ! j))
                 (snd (prompt_templates ! j))
                 (calls m @ map (task_call document) (take j prompt_templates)))"
      using j by (rule run_tasks_nth)
    have nm: "name (?details ! j) = fst (prompt_templates ! j)"
      by (simp only: nth run_single_prompt_name)
    have "(name (?details ! j), result (?details ! j)) \<in> set ?pairs"
      using j len by (metis (mono_tags, lifting) in_set_conv_nth length_map nth_map)
    from map_of_is_SomeI[OF dp this] nm
    have look: "map_of ?pairs (fst (prompt_templates ! j)) = Some (result (?details ! j))"
      by simp
    have out: "case llm (calls m @ map (task_call document) (take j prompt_templates))
                    (snd (prompt_templates ! j)) [(''document'', document)] of
             Inl e \<Rightarrow>
               \<not> task_success (?details ! j)
               \<and> result (?details ! j) = ''Error: '' @ e
               \<and> task_error (?details ! j) = Some e
           | Inr res \<Rightarrow>
               task_success (?details ! j)
               \<and> result (?details ! j) = res
               \<and> task_error (?details ! j) = None"
      by (simp add: nth run_single_prompt_def Let_def split: sum.splits)
    from nm look out show ?thesis by blast
  qed
  obtain out where
    o: "fst (execute_parallel_chains llm prompt_templates document synthesis_template m) = Inr out"
       "execution_details out = ?details" "parallel_results out = dict_of ?pairs"
    by (simp add: execute_parallel_nonempty[OF ne])
  have "length (execution_details out) = length prompt_templates"
    by (simp only: o len)
  moreover have "\<forall>j < length prompt_templates.
                 name (execution_details out ! j) = fst (prompt_templates ! j)
               \<and> map_of (parallel_results out) (fst (prompt_templates ! j))
                   = Some (result (execution_details out ! j))
               \<and> (case llm (calls m @ map (task_call document) (take j prompt_templates))
                            (snd (prompt_templates ! j)) [(''document'', document)] of
                     Inl e \<Rightarrow>
                       \<not> task_success (execution_details out ! j)
                       \<and> result (execution_details out ! j) = ''Error: '' @ e
                       \<and> task_error (execution_details out ! j) = Some e
                   | Inr res \<Rightarrow>
                       task_success (execution_details out ! j)
                       \<and> result (execution_details out ! j) = res
                       \<and> task_error (execution_details out ! j) = None)"
    unfolding o dict using each by blast
  ultimately show ?thesis using o(1) by blast
qed


theorem task_failure_is_isolated_witness:
  "[(''a'', ''sum {document}''), (''b'', ''fail {document}'')] \<noteq> []
   \<and> distinct (map fst [(''a'', ''sum {document}''), (''b'', ''fail {document}'')])
   \<and> (\<exists>out. fst (execute_parallel_chains picky_llm
                    [(''a'', ''sum {document}''), (''b'', ''fail {document}'')] ''D'' None
                    new_manager) = Inr out
           \<and> successful_count out = 1 \<and> failed_count out = 1
           \<and> map_of (parallel_results out) ''a'' = Some ''OUT:D''
           \<and> map_of (parallel_results out) ''b'' = Some ''Error: boom''
           \<and> task_success (execution_details out ! 0)
           \<and> \<not> task_success (execution_details out ! 1)
           \<and> task_error (execution_details out ! 1) = Some ''boom''
           \<and> synthesis out = None)"
  using task_failure_is_isolated[where llm = picky_llm
      and prompt_templates = "[(''a'', ''sum {document}''), (''b'', ''fail {document}'')]"
      and document = "''D''" and synthesis_template = None and m = new_manager]
  by (simp add: parallel_eval)

text \<open>
  Claim C10. A parallel run with at least one task returns an outcome whose top-level
  \<^verbatim>\<open>success\<close> flag is true, also when every task fails; failures show in
  \<^verbatim>\<open>failed_count\<close> and in the entries only.
\<close>

theorem parallel_success_flag:
  assumes "prompt_templates \<noteq> []"
  shows "\<exists>out. fst (execute_parallel_chains llm prompt_templates document synthesis_template m)
               = Inr out
             \<and> parallel_success out"
  by (simp add: execute_parallel_nonempty[OF assms])


theorem parallel_success_flag_witness:
  "[(''a'', ''sum {document}''), (''b'', ''risk {document}'')] \<noteq> []
   \<and> (\<exists>out. fst (execute_parallel_chains failing_llm
                    [(''a'', ''sum {document}''), (''b'', ''risk {document}'')] ''D'' None
                    new_manager) = Inr out
           \<and> parallel_success out \<and> successful_count out = 0 \<and> failed_count out = 2)"
  using parallel_success_flag[where llm = failing_llm
      and prompt_templates = "[(''a'', ''sum {document}''), (''b'', ''risk {document}'')]"
      and document = "''D''" and synthesis_template = None and m = new_manager]
  by (simp add: parallel_eval)

end
